theory Spec2Isabelle
  imports Complex_Main "HOL-Library.Multiset"
begin

section \<open>Numbers and rounding\<close>

text \<open>
  The trainer computes with Python integers and Python floats. Integers are modelled as
  \<open>int\<close>. A float is modelled by the real number it holds. Where a result of the
  program depends on the rounding of a float operation to double precision (the quotient
  in \<open>gen_div\<close>, the guess that \<open>float\<close> reads, the answer check of classic mode
  and the square-root check of approximation mode), the operation is followed by
  \<open>fl\<close>, the rounding to the nearest double; the other float operations are taken
  as exact. The three difficulty strings of the program are a datatype.
\<close>

datatype difficulty = Easy | Medium | Hard

text \<open>
  Python's one-argument \<open>round(x)\<close>: the nearest integer, a tie going to the even
  neighbour.
\<close>

definition round_half_even :: "real \<Rightarrow> int" where
  "round_half_even x =
     (let f = \<lfloor>x\<rfloor>; r = x - of_int f
      in if r < 1 / 2 then f
         else if 1 / 2 < r then f + 1
         else if even f then f else f + 1)"

text \<open>Python's two-argument \<open>round(x, ndigits)\<close> for a non-negative digit count.\<close>

definition round_ndigits :: "real \<Rightarrow> nat \<Rightarrow> real" where
  "round_ndigits x n = of_int (round_half_even (x * 10 ^ n)) / 10 ^ n"

text \<open>Python's \<open>int(x)\<close> on a float: truncation towards zero.\<close>

definition py_int :: "real \<Rightarrow> int" where
  "py_int x = (if 0 \<le> x then \<lfloor>x\<rfloor> else \<lceil>x\<rceil>)"

text \<open>
  \<open>round_to_difficulty(value, difficulty)\<close>: one, two or three decimals.
\<close>

fun round_to_difficulty :: "real \<Rightarrow> difficulty \<Rightarrow> real" where
  "round_to_difficulty v Easy = round_ndigits v 1"
| "round_to_difficulty v Medium = round_ndigits v 2"
| "round_to_difficulty v Hard = round_ndigits v 3"

text \<open>\<open>is_integer(x)\<close>: \<open>abs(x - round(x)) < 1e-9\<close>.\<close>

definition is_integer :: "real \<Rightarrow> bool" where
  "is_integer x \<longleftrightarrow> \<bar>x - of_int (round_half_even x)\<bar> < 1 / 10 ^ 9"

text \<open>
  The nearest double of a real number, ties to the even mantissa, as IEEE 754 rounds the
  result of a float operation: 53 significant bits, and below \<open>2^-1022\<close> the fixed
  spacing \<open>2^-1074\<close> of the subnormal numbers. The exponent is not bounded above: a
  result of \<open>2^1024\<close> or more stands for an infinity, which no operation of the program
  on its own numbers reaches. \<open>bit_length\<close> is Python's \<open>int.bit_length\<close>,
  \<open>binade x\<close> the exponent \<open>e\<close> with \<open>2^e \<le> x < 2^(e+1)\<close> for a positive \<open>x\<close>.
\<close>

function bit_length :: "int \<Rightarrow> nat" where
  "bit_length n = (if n \<le> 0 then 0 else Suc (bit_length (n div 2)))"
  by pat_completeness auto
termination
  by (relation "measure nat") auto

declare bit_length.simps [simp del]

definition pow2 :: "int \<Rightarrow> real" where
  "pow2 e = (if 0 \<le> e then 2 ^ nat e else 1 / 2 ^ nat (- e))"

definition binade :: "real \<Rightarrow> int" where
  "binade x =
     (if 1 \<le> x then int (bit_length \<lfloor>x\<rfloor>) - 1
      else (let k = int (bit_length \<lfloor>1 / x\<rfloor>) - 1
            in if x * 2 ^ nat k = 1 then - k else - k - 1))"

definition fl :: "real \<Rightarrow> real" where
  "fl x =
     (if x = 0 then 0
      else (let e = max (binade \<bar>x\<bar> - 52) (- 1074);
                m = round_half_even (\<bar>x\<bar> / pow2 e)
            in sgn x * of_int m * pow2 e))"

section \<open>The random source\<close>

text \<open>
  Every call of a primitive of Python's \<open>random\<close> module consumes one raw draw, an
  integer supplied by the caller of the model. \<open>randint(a, b)\<close> reduces the draw into the
  inclusive range, \<open>choice(seq)\<close> into the indices of the sequence, and \<open>random()\<close>
  into the 53-bit fractions of the unit interval that CPython produces, so that every
  integer is an admissible draw.
\<close>

definition randint :: "int \<Rightarrow> int \<Rightarrow> int \<Rightarrow> int" where
  "randint a b r = a + r mod (b - a + 1)"

definition choice :: "'a list \<Rightarrow> int \<Rightarrow> 'a" where
  "choice xs r = xs ! nat (r mod int (length xs))"

definition random_unit :: "int \<Rightarrow> real" where
  "random_unit r = of_int (r mod 2 ^ 53) / 2 ^ 53"

definition uniform :: "real \<Rightarrow> real \<Rightarrow> int \<Rightarrow> real" where
  "uniform a b r = a + (b - a) * random_unit r"

section \<open>Prompts\<close>

text \<open>
  A prompt is an f-string with holes. Each constructor stands for one f-string of the
  program and carries the values that fill its holes, in the order they are printed.
\<close>

datatype prompt =
    AddPrompt int int
  | SubPrompt int int
  | MulPrompt int int
  | DivPrompt int int
  | DecimalPrompt real int
  | SquarePrompt int
  | CubePrompt int
  | SqrtPrompt int real
  | LnPrompt real
  | ExpPrompt real
  | InvPrompt real
  | LogretPrompt real
  | CoinPrompt int int
  | UrnPrompt int int
  | IntervalPrompt real real
  | CondPrompt int int

section \<open>The probability generator\<close>

text \<open>
  \<open>gen_prob(d)\<close> picks one of four sub-modes and then makes two further draws. The
  three draws are the arguments \<open>r0\<close>, \<open>r1\<close>, \<open>r2\<close>. The interval prompt is printed
  with two decimals; the constructor keeps the unformatted bounds.
\<close>

definition prob_modes :: "string list" where
  "prob_modes = [''coin'', ''urn'', ''interval'', ''cond'']"

definition gen_prob :: "difficulty \<Rightarrow> int \<Rightarrow> int \<Rightarrow> int \<Rightarrow> prompt \<times> real" where
  "gen_prob d r0 r1 r2 =
     (let mode = choice prob_modes r0
      in if mode = ''coin'' then
           (let n = randint 3 10 r1; k = randint 0 n r2
            in (CoinPrompt k n, round_ndigits ((1 / 2) ^ nat n) 5))
         else if mode = ''urn'' then
           (let r = randint 3 15 r1; b = randint 3 15 r2
            in (UrnPrompt r b, round_ndigits (of_int r / of_int (r + b)) 4))
         else if mode = ''interval'' then
           (let a = random_unit r1; b = random_unit r2; lo = min a b; hi = max a b
            in (IntervalPrompt lo hi, round_ndigits (hi - lo) 4))
         else
           (let a = randint 1 9 r1; b = randint 1 9 r2
            in (CondPrompt a b, round_ndigits (of_int a / of_int (a + b)) 4)))"

section \<open>Multiple-choice options\<close>

text \<open>
  A Python set of numbers is a list without repetitions; \<open>opts.add(x)\<close> appends \<open>x\<close>
  unless it is already a member. The order in which \<open>list(opts)\<close> enumerates the set is
  taken to be the insertion order; the shuffle that follows permutes it anyway.
\<close>

definition set_add :: "'a list \<Rightarrow> 'a \<Rightarrow> 'a list" where
  "set_add opts x = (if x \<in> set opts then opts else opts @ [x])"

text \<open>
  \<open>random.shuffle(x)\<close> runs \<open>for i in reversed(range(1, len(x)))\<close>, draws
  \<open>j\<close> below \<open>i + 1\<close> and swaps the entries \<open>i\<close> and \<open>j\<close>. The raw draw used at
  position \<open>i\<close> is \<open>sh i\<close>.
\<close>

fun shuffle_from :: "(nat \<Rightarrow> int) \<Rightarrow> nat \<Rightarrow> 'a list \<Rightarrow> 'a list" where
  "shuffle_from sh 0 xs = xs"
| "shuffle_from sh (Suc i) xs =
     (let j = nat (sh (Suc i) mod int (Suc i + 1))
      in shuffle_from sh i (xs[Suc i := xs ! j, j := xs ! Suc i]))"

definition shuffle :: "(nat \<Rightarrow> int) \<Rightarrow> 'a list \<Rightarrow> 'a list" where
  "shuffle sh xs = shuffle_from sh (length xs - 1) xs"

text \<open>Two shuffle sources for concrete runs: every draw 0, and the draw \<open>i\<close> at \<open>i\<close>.\<close>

definition draws_zero :: "nat \<Rightarrow> int" where
  "draws_zero i = 0"

definition draws_keep :: "nat \<Rightarrow> int" where
  "draws_keep i = int i"

text \<open>
  The \<open>while len(opts) < n\<close> loop of \<open>generate_integer_distractors\<close>. Each turn
  consumes one raw draw from the list \<open>rs\<close>. The loop has no bound of its own: the
  result is \<open>None\<close> when the draws are used up before the set has \<open>n\<close> members.
\<close>

fun integer_loop :: "int \<Rightarrow> int \<Rightarrow> nat \<Rightarrow> int list \<Rightarrow> int list \<Rightarrow> int list option" where
  "integer_loop correct magnitude n opts [] =
     (if length opts < n then None else Some opts)"
| "integer_loop correct magnitude n opts (r # rs) =
     (if length opts < n then
        (let delta = randint (- magnitude) magnitude r
         in if delta = 0 then integer_loop correct magnitude n opts rs
            else (let cand = correct + delta
                  in integer_loop correct magnitude n (set_add opts cand) rs))
      else Some opts)"

text \<open>
  \<open>generate_integer_distractors(correct, n=4)\<close>. Python's \<open>abs(correct) // 5\<close> is
  floor division of a non-negative integer, which \<open>div\<close> is.
\<close>

definition generate_integer_distractors ::
  "int \<Rightarrow> nat \<Rightarrow> int list \<Rightarrow> (nat \<Rightarrow> int) \<Rightarrow> int list option" where
  "generate_integer_distractors correct n rs sh =
     (let opts = [correct];
          magnitude = max 5 (\<bar>correct\<bar> div 5)
      in map_option (shuffle sh) (integer_loop correct magnitude n opts rs))"

text \<open>The dictionary \<open>{"easy": 1, "medium": 2, "hard": 3}\<close>.\<close>

fun decimals :: "difficulty \<Rightarrow> nat" where
  "decimals Easy = 1"
| "decimals Medium = 2"
| "decimals Hard = 3"

text \<open>The loop of \<open>generate_decimal_distractors\<close>, with the same reading of \<open>None\<close>.\<close>

fun decimal_loop ::
  "real \<Rightarrow> nat \<Rightarrow> real \<Rightarrow> nat \<Rightarrow> real list \<Rightarrow> int list \<Rightarrow> real list option" where
  "decimal_loop correct dec spread n opts [] =
     (if length opts < n then None else Some opts)"
| "decimal_loop correct dec spread n opts (r # rs) =
     (if length opts < n then
        (let noise = (random_unit r - 5 / 10) * spread;
             cand = round_ndigits (correct + noise) dec
         in decimal_loop correct dec spread n (set_add opts cand) rs)
      else Some opts)"

definition generate_decimal_distractors ::
  "real \<Rightarrow> difficulty \<Rightarrow> nat \<Rightarrow> int list \<Rightarrow> (nat \<Rightarrow> int) \<Rightarrow> real list option" where
  "generate_decimal_distractors correct difficulty n rs sh =
     (let dec = decimals difficulty;
          opts = [round_ndigits correct dec];
          spread = \<bar>correct\<bar> * (15 / 100) + 1 / 10
      in map_option (shuffle sh) (decimal_loop correct dec spread n opts rs))"

text \<open>
  \<open>mcq_options(correct, difficulty)\<close>. Both helpers are called with their default
  \<open>n = 4\<close>. The integer options are Python integers; they are read as reals here, as
  Python compares them with floats.
\<close>

definition mcq_options ::
  "real \<Rightarrow> difficulty \<Rightarrow> int list \<Rightarrow> (nat \<Rightarrow> int) \<Rightarrow> real list option" where
  "mcq_options correct difficulty rs sh =
     (if is_integer correct
      then map_option (map of_int) (generate_integer_distractors (py_int correct) 4 rs sh)
      else generate_decimal_distractors correct difficulty 4 rs sh)"

text \<open>
  The first member that the chosen helper puts into its set: \<open>int(correct)\<close> in the
  integer branch, \<open>round(correct, decimals)\<close> in the decimal branch.
\<close>

definition mcq_seed :: "real \<Rightarrow> difficulty \<Rightarrow> real" where
  "mcq_seed correct difficulty =
     (if is_integer correct then of_int (py_int correct)
      else round_ndigits correct (decimals difficulty))"

text \<open>
  The number of options that pass the test \<open>abs(o - correct) < 1e-9\<close>, which the
  multiple-choice modes use to score a choice.
\<close>

definition count_close :: "real \<Rightarrow> real list \<Rightarrow> nat" where
  "count_close correct opts = length (filter (\<lambda>v. \<bar>v - correct\<bar> < 1 / 10 ^ 9) opts)"

section \<open>Arithmetic generators\<close>

text \<open>
  Each generator takes the difficulty and one raw draw for every call of the random
  module it makes, in the order of the calls. The answers of \<open>gen_add\<close>, \<open>gen_sub\<close>,
  \<open>gen_mul\<close>, \<open>gen_square\<close> and \<open>gen_cube\<close> are Python integers; those of
  \<open>gen_div\<close> and \<open>gen_decimal\<close> are floats. In \<open>gen_div\<close> the quotient
  \<open>a / b\<close> is a float division: at medium and hard difficulty \<open>round\<close> is applied
  to the double nearest to the quotient, which decides the result when the quotient lies
  half-way between two values of the depth. At easy difficulty \<open>a\<close> is a multiple of
  \<open>b\<close> and the quotient is a small integer, which the division gives exactly. In
  \<open>gen_decimal\<close> a product \<open>dec * n\<close> lies half-way between two values of the
  depth only when \<open>dec\<close> is a multiple of 0.25, and then \<open>dec\<close> and the product
  are doubles and the float product is exact; the product is taken as exact.
\<close>

fun gen_add :: "difficulty \<Rightarrow> int \<Rightarrow> int \<Rightarrow> prompt \<times> int" where
  "gen_add Easy r1 r2 =
     (let a = randint 20 200 r1; b = randint 20 200 r2 in (AddPrompt a b, a + b))"
| "gen_add Medium r1 r2 =
     (let a = randint 100 900 r1; b = randint 100 900 r2 in (AddPrompt a b, a + b))"
| "gen_add Hard r1 r2 =
     (let a = randint 1000 9999 r1; b = randint 1000 9999 r2 in (AddPrompt a b, a + b))"

fun gen_sub :: "difficulty \<Rightarrow> int \<Rightarrow> int \<Rightarrow> prompt \<times> int" where
  "gen_sub Easy r1 r2 =
     (let a = randint 50 300 r1; b = randint 10 200 r2 in (SubPrompt a b, a - b))"
| "gen_sub Medium r1 r2 =
     (let a = randint 500 2000 r1; b = randint 200 1500 r2 in (SubPrompt a b, a - b))"
| "gen_sub Hard r1 r2 =
     (let a = randint 2000 9999 r1; b = randint 500 9000 r2 in (SubPrompt a b, a - b))"

fun gen_mul :: "difficulty \<Rightarrow> int \<Rightarrow> int \<Rightarrow> prompt \<times> int" where
  "gen_mul Easy r1 r2 =
     (let a = randint 10 80 r1; b = randint 2 9 r2 in (MulPrompt a b, a * b))"
| "gen_mul Medium r1 r2 =
     (let a = randint 20 99 r1; b = randint 10 99 r2 in (MulPrompt a b, a * b))"
| "gen_mul Hard r1 r2 =
     (let a = randint 100 999 r1; b = randint 10 99 r2 in (MulPrompt a b, a * b))"

fun gen_div :: "difficulty \<Rightarrow> int \<Rightarrow> int \<Rightarrow> prompt \<times> real" where
  "gen_div Easy r1 r2 =
     (let b = choice [2, 4, 5, 8] r1; a = b * randint 2 50 r2
      in (DivPrompt a b, of_int a / of_int b))"
| "gen_div Medium r1 r2 =
     (let b = randint 2 40 r1; a = randint 50 800 r2
      in (DivPrompt a b, round_to_difficulty (fl (of_int a / of_int b)) Medium))"
| "gen_div Hard r1 r2 =
     (let b = randint 3 90 r1; a = randint 100 4000 r2
      in (DivPrompt a b, round_to_difficulty (fl (of_int a / of_int b)) Hard))"

fun gen_decimal :: "difficulty \<Rightarrow> int \<Rightarrow> int \<Rightarrow> prompt \<times> real" where
  "gen_decimal Easy r1 r2 =
     (let dec = choice [1 / 10, 2 / 10, 25 / 100, 5 / 10, 75 / 100] r1;
          n = randint 20 500 r2;
          result = round_to_difficulty (dec * of_int n) Easy
      in (DecimalPrompt dec n, result))"
| "gen_decimal Medium r1 r2 =
     (let dec = choice [1 / 10, 2 / 10, 25 / 100, 33 / 100, 5 / 10, 66 / 100, 75 / 100] r1;
          n = randint 50 2000 r2;
          result = round_to_difficulty (dec * of_int n) Medium
      in (DecimalPrompt dec n, result))"
| "gen_decimal Hard r1 r2 =
     (let dec = round_ndigits (uniform (1 / 1000) (9 / 10) r1) 3;
          n = randint 200 20000 r2;
          result = round_to_difficulty (dec * of_int n) Hard
      in (DecimalPrompt dec n, result))"

fun gen_square :: "difficulty \<Rightarrow> int \<Rightarrow> prompt \<times> int" where
  "gen_square Easy r1 = (let n = randint 5 20 r1 in (SquarePrompt n, n * n))"
| "gen_square Medium r1 = (let n = randint 20 50 r1 in (SquarePrompt n, n * n))"
| "gen_square Hard r1 = (let n = randint 40 120 r1 in (SquarePrompt n, n * n))"

fun gen_cube :: "difficulty \<Rightarrow> int \<Rightarrow> prompt \<times> int" where
  "gen_cube Easy r1 = (let n = randint 2 6 r1 in (CubePrompt n, n ^ 3))"
| "gen_cube Medium r1 = (let n = randint 5 12 r1 in (CubePrompt n, n ^ 3))"
| "gen_cube Hard r1 = (let n = randint 8 20 r1 in (CubePrompt n, n ^ 3))"

text \<open>
  The dictionary \<open>ARITH\<close> has seven fixed string keys; they are a datatype, and
  \<open>topics\<close> is \<open>list(ARITH.keys())\<close> in insertion order. \<open>ARITH t d r1 r2\<close> is the
  call \<open>ARITH[t](d)\<close>, with the answer read as a real; the second draw is not consumed
  by \<open>gen_square\<close> and \<open>gen_cube\<close>.
\<close>

datatype topic = Addition | Subtraction | Multiplication | Division | Decimals | Square | Cube

definition int_answer :: "prompt \<times> int \<Rightarrow> prompt \<times> real" where
  "int_answer qa = (fst qa, of_int (snd qa))"

fun ARITH :: "topic \<Rightarrow> difficulty \<Rightarrow> int \<Rightarrow> int \<Rightarrow> prompt \<times> real" where
  "ARITH Addition d r1 r2 = int_answer (gen_add d r1 r2)"
| "ARITH Subtraction d r1 r2 = int_answer (gen_sub d r1 r2)"
| "ARITH Multiplication d r1 r2 = int_answer (gen_mul d r1 r2)"
| "ARITH Division d r1 r2 = gen_div d r1 r2"
| "ARITH Decimals d r1 r2 = gen_decimal d r1 r2"
| "ARITH Square d r1 r2 = int_answer (gen_square d r1)"
| "ARITH Cube d r1 r2 = int_answer (gen_cube d r1)"

definition topics :: "topic list" where
  "topics = [Addition, Subtraction, Multiplication, Division, Decimals, Square, Cube]"

text \<open>
  The arithmetic value of the expression that an arithmetic prompt shows, computed
  exactly.
\<close>

fun exact_result :: "prompt \<Rightarrow> real option" where
  "exact_result (AddPrompt a b) = Some (of_int a + of_int b)"
| "exact_result (SubPrompt a b) = Some (of_int a - of_int b)"
| "exact_result (MulPrompt a b) = Some (of_int a * of_int b)"
| "exact_result (DivPrompt a b) = Some (of_int a / of_int b)"
| "exact_result (DecimalPrompt dec n) = Some (dec * of_int n)"
| "exact_result (SquarePrompt n) = Some (of_int n * of_int n)"
| "exact_result (CubePrompt n) = Some (of_int n * of_int n * of_int n)"
| "exact_result _ = None"

text \<open>The operand bands of the specification's table, row by row.\<close>

definition between :: "int \<Rightarrow> int \<Rightarrow> int \<Rightarrow> bool" where
  "between lo hi x \<longleftrightarrow> lo \<le> x \<and> x \<le> hi"

fun add_band :: "difficulty \<Rightarrow> int \<Rightarrow> int \<Rightarrow> bool" where
  "add_band Easy a b = (between 20 200 a \<and> between 20 200 b)"
| "add_band Medium a b = (between 100 900 a \<and> between 100 900 b)"
| "add_band Hard a b = (between 1000 9999 a \<and> between 1000 9999 b)"

fun sub_band :: "difficulty \<Rightarrow> int \<Rightarrow> int \<Rightarrow> bool" where
  "sub_band Easy a b = (between 50 300 a \<and> between 10 200 b)"
| "sub_band Medium a b = (between 500 2000 a \<and> between 200 1500 b)"
| "sub_band Hard a b = (between 2000 9999 a \<and> between 500 9000 b)"

fun mul_band :: "difficulty \<Rightarrow> int \<Rightarrow> int \<Rightarrow> bool" where
  "mul_band Easy a b = (between 10 80 a \<and> between 2 9 b)"
| "mul_band Medium a b = (between 20 99 a \<and> between 10 99 b)"
| "mul_band Hard a b = (between 100 999 a \<and> between 10 99 b)"

fun div_band :: "difficulty \<Rightarrow> int \<Rightarrow> int \<Rightarrow> bool" where
  "div_band Easy a b = (b \<in> set [2, 4, 5, 8] \<and> a mod b = 0 \<and> between 2 50 (a div b))"
| "div_band Medium a b = (between 2 40 b \<and> between 50 800 a)"
| "div_band Hard a b = (between 3 90 b \<and> between 100 4000 a)"

fun decimal_band :: "difficulty \<Rightarrow> real \<Rightarrow> int \<Rightarrow> bool" where
  "decimal_band Easy dec n =
     (dec \<in> set [1 / 10, 2 / 10, 25 / 100, 5 / 10, 75 / 100] \<and> between 20 500 n)"
| "decimal_band Medium dec n =
     (dec \<in> set [1 / 10, 2 / 10, 25 / 100, 33 / 100, 5 / 10, 66 / 100, 75 / 100]
      \<and> between 50 2000 n)"
| "decimal_band Hard dec n =
     (round_ndigits dec 3 = dec \<and> 1 / 1000 \<le> dec \<and> dec \<le> 9 / 10 \<and> between 200 20000 n)"

fun square_band :: "difficulty \<Rightarrow> int \<Rightarrow> bool" where
  "square_band Easy n = between 5 20 n"
| "square_band Medium n = between 20 50 n"
| "square_band Hard n = between 40 120 n"

fun cube_band :: "difficulty \<Rightarrow> int \<Rightarrow> bool" where
  "cube_band Easy n = between 2 6 n"
| "cube_band Medium n = between 5 12 n"
| "cube_band Hard n = between 8 20 n"

definition in_band :: "topic \<Rightarrow> difficulty \<Rightarrow> prompt \<Rightarrow> bool" where
  "in_band t d p =
     (case p of
        AddPrompt a b \<Rightarrow> t = Addition \<and> add_band d a b
      | SubPrompt a b \<Rightarrow> t = Subtraction \<and> sub_band d a b
      | MulPrompt a b \<Rightarrow> t = Multiplication \<and> mul_band d a b
      | DivPrompt a b \<Rightarrow> t = Division \<and> div_band d a b
      | DecimalPrompt dec n \<Rightarrow> t = Decimals \<and> decimal_band d dec n
      | SquarePrompt n \<Rightarrow> t = Square \<and> square_band d n
      | CubePrompt n \<Rightarrow> t = Cube \<and> cube_band d n
      | _ \<Rightarrow> False)"

text \<open>The topics whose answer the table marks as rounded to the difficulty depth.\<close>

definition rounded_topic :: "topic \<Rightarrow> difficulty \<Rightarrow> bool" where
  "rounded_topic t d \<longleftrightarrow> t = Decimals \<or> (t = Division \<and> d \<noteq> Easy)"

section \<open>Approximation generators\<close>

text \<open>
  The value that an approximation generator returns is either the pair
  \<open>(math.sqrt(x), tol)\<close> or a single rounded number. \<open>math.sqrt\<close> returns the
  double nearest to the square root, and the literals 0.05, 0.03 and 0.02 are the doubles
  nearest to these decimals.
\<close>

datatype approx_val = Tolerance real real | Scalar real

definition gen_sqrt :: "difficulty \<Rightarrow> int \<Rightarrow> prompt \<times> approx_val" where
  "gen_sqrt d r =
     (let xt = (case d of
                  Easy \<Rightarrow> (randint 5 200 r, fl (5 / 100))
                | Medium \<Rightarrow> (randint 100 500 r, fl (3 / 100))
                | Hard \<Rightarrow> (randint 300 2000 r, fl (2 / 100)));
          x = fst xt;
          tol = snd xt
      in (SqrtPrompt x tol, Tolerance (fl (sqrt (of_int x))) tol))"

definition gen_ln :: "difficulty \<Rightarrow> int \<Rightarrow> prompt \<times> real" where
  "gen_ln d r =
     (let x = round_ndigits (uniform (1 / 100) (5 / 10) r) 3;
          approx = (case d of
                      Easy \<Rightarrow> x
                    | Medium \<Rightarrow> x - x ^ 2 / 2
                    | Hard \<Rightarrow> x - x ^ 2 / 2 + x ^ 3 / 3)
      in (LnPrompt x, round_to_difficulty approx d))"

definition gen_exp :: "difficulty \<Rightarrow> int \<Rightarrow> prompt \<times> real" where
  "gen_exp d r =
     (let x = round_ndigits (uniform (- (4 / 10)) (4 / 10) r) 3;
          approx = (case d of
                      Easy \<Rightarrow> 1 + x
                    | Medium \<Rightarrow> 1 + x + x ^ 2 / 2
                    | Hard \<Rightarrow> 1 + x + x ^ 2 / 2 + x ^ 3 / 6)
      in (ExpPrompt x, round_to_difficulty approx d))"

definition gen_inv :: "difficulty \<Rightarrow> int \<Rightarrow> prompt \<times> real" where
  "gen_inv d r =
     (let x = round_ndigits (uniform (5 / 100) 1 r) 3;
          approx = (case d of
                      Easy \<Rightarrow> 1 - x
                    | Medium \<Rightarrow> 1 - x + x ^ 2
                    | Hard \<Rightarrow> 1 / (1 + x))
      in (InvPrompt x, round_to_difficulty approx d))"

definition gen_logret :: "difficulty \<Rightarrow> int \<Rightarrow> prompt \<times> real" where
  "gen_logret d r0 =
     (let r = round_ndigits (uniform (- (2 / 10)) (2 / 10) r0) 3;
          true = ln (1 + r);
          approx = (case d of
                      Easy \<Rightarrow> r
                    | Medium \<Rightarrow> r - r ^ 2 / 2
                    | Hard \<Rightarrow> true)
      in (LogretPrompt r, round_to_difficulty approx d))"

datatype approx_topic = Sqrt | Ln | Exp | Inverse | Logret

definition scalar_answer :: "prompt \<times> real \<Rightarrow> prompt \<times> approx_val" where
  "scalar_answer qa = (fst qa, Scalar (snd qa))"

fun APPROX :: "approx_topic \<Rightarrow> difficulty \<Rightarrow> int \<Rightarrow> prompt \<times> approx_val" where
  "APPROX Sqrt d r = gen_sqrt d r"
| "APPROX Ln d r = scalar_answer (gen_ln d r)"
| "APPROX Exp d r = scalar_answer (gen_exp d r)"
| "APPROX Inverse d r = scalar_answer (gen_inv d r)"
| "APPROX Logret d r = scalar_answer (gen_logret d r)"

definition approx_topics :: "approx_topic list" where
  "approx_topics = [Sqrt, Ln, Exp, Inverse, Logret]"

section \<open>Console input and output\<close>

text \<open>
  Standard input is the list of the lines still to be read, each a Python string;
  \<open>input()\<close> on the empty list raises \<open>EOFError\<close>. What the program prints is a list of events, one constructor
  for each \<open>print\<close> statement that the modes reach, carrying the values printed.
\<close>

text \<open>
  A Python string is the list of its Unicode code points. \<open>ascii\<close> turns a literal of
  the program into such a list.
\<close>

type_synonym pystr = "int list"

definition ascii :: "string \<Rightarrow> pystr" where
  "ascii s = map of_char s"

datatype error = ValueError | EOFError | IndexError | TypeError

datatype event =
    PleaseChoose "pystr list"
  | ClassicHeader
  | DrillHeader
  | ApproxHeader
  | ClassicQuestion int prompt
  | DrillQuestion int real prompt "real list"
  | ApproxQuestion int prompt
  | Options "real list"
  | Invalid
  | Correct
  | Wrong real
  | TimeIsUp
  | Good
  | TooFar real
  | Summary int int
  | Accuracy real
  | TimeTaken

text \<open>
  A mode either returns, raises an uncaught exception, or waits for ever inside
  \<open>mcq_options\<close> (with the draws supplied the option loop does not end). The events
  printed so far are kept in each case.
\<close>

datatype 'a outcome = Returned 'a | Raised error "event list" | Diverged "event list"

text \<open>
  \<open>str.strip()\<close> removes from both ends the code points for which \<open>str.isspace\<close>
  holds: the ASCII controls 9 to 13 and 28 to 31, the space, U+0085, U+00A0, U+1680,
  U+2000 to U+200A, U+2028, U+2029, U+202F, U+205F and U+3000.
\<close>

definition whitespace :: "int list" where
  "whitespace = [9, 10, 11, 12, 13, 28, 29, 30, 31, 32, 133, 160, 5760,
                 8192, 8193, 8194, 8195, 8196, 8197, 8198, 8199, 8200, 8201, 8202,
                 8232, 8233, 8239, 8287, 12288]"

definition py_strip :: "pystr \<Rightarrow> pystr" where
  "py_strip s =
     rev (dropWhile (\<lambda>c. c \<in> set whitespace) (rev (dropWhile (\<lambda>c. c \<in> set whitespace) s)))"

text \<open>
  \<open>str.lower()\<close>, as far as a comparison with the program's ASCII tokens can see it:
  the ASCII capitals go to their small letters, and the only two code points outside
  ASCII whose lower case contains an ASCII letter are mapped as Python maps them (U+0130
  to \<open>i\<close> followed by U+0307, U+212A to \<open>k\<close>). Every other code point outside ASCII
  lowers to text outside ASCII and is left as it is.
\<close>

definition lower_point :: "int \<Rightarrow> pystr" where
  "lower_point c =
     (if 65 \<le> c \<and> c \<le> 90 then [c + 32]
      else if c = 304 then [105, 775]
      else if c = 8490 then [107]
      else [c])"

definition py_lower :: "pystr \<Rightarrow> pystr" where
  "py_lower s = concat (map lower_point s)"

text \<open>
  \<open>get_choice(prompt, valid)\<close>: read lines until one, stripped and lowered, is among
  the lowered valid values. The result is the events printed, the accepted answer and
  the lines left.
\<close>

fun get_choice :: "pystr list \<Rightarrow> pystr list \<Rightarrow> (event list \<times> pystr \<times> pystr list) option" where
  "get_choice valid [] = None"
| "get_choice valid (l # ls) =
     (let valid_lower = map py_lower valid;
          ans = py_lower (py_strip l)
      in if ans \<in> set valid_lower then Some ([], ans, ls)
         else (case get_choice valid ls of
                 None \<Rightarrow> None
               | Some (ev, a, rest) \<Rightarrow> Some (PleaseChoose valid # ev, a, rest)))"

definition difficulty_of :: "pystr \<Rightarrow> difficulty" where
  "difficulty_of s =
     (if s = ascii ''easy'' then Easy else if s = ascii ''medium'' then Medium else Hard)"

text \<open>
  \<open>int(s)\<close> for a string of the ASCII decimal digits, the only strings that reach
  \<open>int(choice)\<close> after \<open>get_choice\<close> and the quit test.
\<close>

definition digit_value :: "int \<Rightarrow> int option" where
  "digit_value c = (if 48 \<le> c \<and> c \<le> 57 then Some (c - 48) else None)"

fun digits_int :: "int \<Rightarrow> pystr \<Rightarrow> int option" where
  "digits_int acc [] = Some acc"
| "digits_int acc (c # cs) =
     (case digit_value c of None \<Rightarrow> None | Some v \<Rightarrow> digits_int (10 * acc + v) cs)"

definition int_of_digits :: "pystr \<Rightarrow> int option" where
  "int_of_digits s = (if s = [] then None else digits_int 0 s)"

text \<open>
  \<open>float(s)\<close>: \<open>float_of\<close> gives the number that a text denotes, and \<open>None\<close> for a
  text that \<open>float\<close> rejects; \<open>float\<close> returns the double nearest to that number.
  For a number beyond the largest double, and for the texts that it reads as an infinity
  or as \<open>nan\<close>, \<open>float\<close> returns no finite double. The program reads the result
  only in \<open>abs(u - ans) < 1e-6\<close> and \<open>abs(u - true) <= tol\<close>, which are false for an
  infinity and for \<open>nan\<close>, as they are for every number of \<open>2^1024\<close> or more; such a
  text is read as a number of that size.
\<close>

definition py_float :: "(pystr \<Rightarrow> real option) \<Rightarrow> pystr \<Rightarrow> real option" where
  "py_float float_of s = map_option fl (float_of s)"

text \<open>\<open>xs[i]\<close> with Python's negative indices, and \<open>xs.index(x)\<close>.\<close>

definition py_get :: "'a list \<Rightarrow> int \<Rightarrow> 'a option" where
  "py_get xs i =
     (if 0 \<le> i \<and> i < int (length xs) then Some (xs ! nat i)
      else if - int (length xs) \<le> i \<and> i < 0 then Some (xs ! nat (int (length xs) + i))
      else None)"

fun py_index :: "'a list \<Rightarrow> 'a \<Rightarrow> nat option" where
  "py_index [] x = None"
| "py_index (y # ys) x = (if y = x then Some 0 else map_option Suc (py_index ys x))"

text \<open>
  What a session draws and reads besides standard input: for question \<open>i\<close> the raw
  draws of the topic choice, of the generator, of the option loop and of the shuffle, and
  for the timed drill the two values of \<open>time.time() - t0\<close> that iteration \<open>i\<close> reads.
\<close>

record question_draws =
  topic_draw :: int
  first_draw :: int
  second_draw :: int
  option_draws :: "int list"
  shuffle_draws :: "nat \<Rightarrow> int"

record session =
  draws_of :: "int \<Rightarrow> question_draws"
  check_time :: "int \<Rightarrow> real"
  show_time :: "int \<Rightarrow> real"

section \<open>The modes\<close>

text \<open>
  The loop \<open>for i in range(1, n + 1)\<close> of \<open>run_classic\<close>. The bare
  \<open>except\<close> catches the \<open>ValueError\<close> of \<open>float\<close>. The guess \<open>u\<close> is a
  double, \<open>u - ans\<close> a float subtraction and \<open>1e-6\<close> the double nearest to that
  number. \<open>int_of\<close> in \<open>run_classic\<close> stands for Python's \<open>int\<close> on a string,
  \<open>None\<close> where it raises.
\<close>

function classic_loop ::
  "(pystr \<Rightarrow> real option) \<Rightarrow> difficulty \<Rightarrow> int \<Rightarrow> session \<Rightarrow> int \<Rightarrow> int
     \<Rightarrow> pystr list \<Rightarrow> event list \<Rightarrow> (event list \<times> int) outcome" where
  "classic_loop float_of d n env i score stdin out =
     (if n < i then Returned (out, score)
      else
        (let q = draws_of env i;
             topic = choice topics (topic_draw q);
             qa = ARITH topic d (first_draw q) (second_draw q);
             ans = snd qa;
             out1 = out @ [ClassicQuestion i (fst qa)]
         in case stdin of
              [] \<Rightarrow> Raised EOFError out1
            | l # rest \<Rightarrow>
                (let user = py_strip l
                 in if user \<in> set [ascii ''q'', ascii ''quit''] then Returned (out1, score)
                    else (case py_float float_of user of
                            None \<Rightarrow>
                              classic_loop float_of d n env (i + 1) score rest (out1 @ [Invalid])
                          | Some u \<Rightarrow>
                              if \<bar>fl (u - ans)\<bar> < fl (1 / 10 ^ 6)
                              then classic_loop float_of d n env (i + 1) (score + 1) rest
                                     (out1 @ [Correct])
                              else classic_loop float_of d n env (i + 1) score rest
                                     (out1 @ [Wrong ans])))))"
  by pat_completeness auto
termination
  by (relation "measure (\<lambda>(float_of, d, n, env, i, score, stdin, out). nat (n + 1 - i))") auto

declare classic_loop.simps [simp del]

definition run_classic ::
  "(pystr \<Rightarrow> real option) \<Rightarrow> (pystr \<Rightarrow> int option) \<Rightarrow> session \<Rightarrow> pystr list
     \<Rightarrow> event list outcome" where
  "run_classic float_of int_of env stdin =
     (case get_choice (map ascii [''easy'', ''medium'', ''hard'']) stdin of
        None \<Rightarrow> Raised EOFError [ClassicHeader]
      | Some (ev, difficulty, rest) \<Rightarrow>
          (case rest of
             [] \<Rightarrow> Raised EOFError (ClassicHeader # ev)
           | l # rest' \<Rightarrow>
               (case int_of l of
                  None \<Rightarrow> Raised ValueError (ClassicHeader # ev)
                | Some n \<Rightarrow>
                    (case classic_loop float_of (difficulty_of difficulty) n env 1 0 rest'
                            (ClassicHeader # ev) of
                       Returned (out, score) \<Rightarrow> Returned (out @ [Summary score n, TimeTaken])
                     | Raised e out \<Rightarrow> Raised e out
                     | Diverged out \<Rightarrow> Diverged out))))"

text \<open>
  The loop \<open>for i in range(1, 81)\<close> of \<open>run_eighty\<close>. The result carries the
  events, the score and the value that the loop variable \<open>i\<close> has when the loop is left;
  the summary reads \<open>i\<close> after the loop. The line
  \<open>if opts[int(choice)-1] == opts[opts.index(ans)]: pass\<close> has no effect of its own but
  evaluates both subscripts, left to right, and each can raise.
\<close>

function eighty_loop ::
  "difficulty \<Rightarrow> session \<Rightarrow> int \<Rightarrow> int \<Rightarrow> pystr list \<Rightarrow> event list
     \<Rightarrow> (event list \<times> int \<times> int) outcome" where
  "eighty_loop d env i score stdin out =
     (if 80 < i then Returned (out, score, 80)
      else if 480 < check_time env i then Returned (out @ [TimeIsUp], score, i)
      else
        (let remaining = 480 - show_time env i;
             q = draws_of env i;
             topic = choice topics (topic_draw q);
             qa = ARITH topic d (first_draw q) (second_draw q);
             ans = snd qa
         in case mcq_options ans d (option_draws q) (shuffle_draws q) of
              None \<Rightarrow> Diverged out
            | Some opts \<Rightarrow>
                (let out1 = out @ [DrillQuestion i remaining (fst qa) opts]
                 in case get_choice (map ascii [''1'', ''2'', ''3'', ''4'', ''q'']) stdin of
                      None \<Rightarrow> Raised EOFError out1
                    | Some (ev, chosen, rest) \<Rightarrow>
                        if chosen = ascii ''q'' then Returned (out1 @ ev, score, i)
                        else
                          (case int_of_digits chosen of
                             None \<Rightarrow> Raised ValueError (out1 @ ev)
                           | Some c \<Rightarrow>
                               (case py_get opts (c - 1) of
                                  None \<Rightarrow> Raised IndexError (out1 @ ev)
                                | Some picked \<Rightarrow>
                                    (case py_index opts ans of
                                       None \<Rightarrow> Raised ValueError (out1 @ ev)
                                     | Some k \<Rightarrow>
                                         if \<bar>picked - ans\<bar> < 1 / 10 ^ 9
                                         then eighty_loop d env (i + 1) (score + 1) rest
                                                (out1 @ ev @ [Correct])
                                         else eighty_loop d env (i + 1) score rest
                                                (out1 @ ev @ [Wrong ans])))))))"
  by pat_completeness auto
termination
  by (relation "measure (\<lambda>(d, env, i, score, stdin, out). nat (81 - i))") auto

declare eighty_loop.simps [simp del]

definition run_eighty :: "session \<Rightarrow> pystr list \<Rightarrow> event list outcome" where
  "run_eighty env stdin =
     (case get_choice (map ascii [''easy'', ''medium'', ''hard'']) stdin of
        None \<Rightarrow> Raised EOFError [DrillHeader]
      | Some (ev, difficulty, rest) \<Rightarrow>
          (case eighty_loop (difficulty_of difficulty) env 1 0 rest (DrillHeader # ev) of
             Returned (out, score, i) \<Rightarrow>
               Returned (out @ [Summary score i,
                                Accuracy (round_ndigits (of_int score / of_int i * 100) 2)])
           | Raised e out \<Rightarrow> Raised e out
           | Diverged out \<Rightarrow> Diverged out))"

text \<open>
  The loop of \<open>run_approximations\<close>. In the square-root branch \<open>float(input(...))\<close>
  is not guarded, so a line that \<open>float\<close> rejects raises \<open>ValueError\<close>. The
  guess \<open>u\<close> and \<open>true\<close> are doubles, and \<open>u - true\<close> is a float subtraction.
\<close>

function approx_loop ::
  "(pystr \<Rightarrow> real option) \<Rightarrow> difficulty \<Rightarrow> int \<Rightarrow> session \<Rightarrow> int \<Rightarrow> int
     \<Rightarrow> pystr list \<Rightarrow> event list \<Rightarrow> (event list \<times> int) outcome" where
  "approx_loop float_of d n env i score stdin out =
     (if n < i then Returned (out, score)
      else
        (let q = draws_of env i;
             t = choice approx_topics (topic_draw q);
             qv = APPROX t d (first_draw q);
             out1 = out @ [ApproxQuestion i (fst qv)]
         in if t = Sqrt then
              (case snd qv of
                 Scalar v \<Rightarrow> Raised TypeError out1
               | Tolerance true tol \<Rightarrow>
                   (case stdin of
                      [] \<Rightarrow> Raised EOFError out1
                    | l # rest \<Rightarrow>
                        (case py_float float_of l of
                           None \<Rightarrow> Raised ValueError out1
                         | Some u \<Rightarrow>
                             if \<bar>fl (u - true)\<bar> \<le> tol
                             then approx_loop float_of d n env (i + 1) (score + 1) rest
                                    (out1 @ [Good])
                             else approx_loop float_of d n env (i + 1) score rest
                                    (out1 @ [TooFar (round_ndigits true 4)]))))
            else
              (case snd qv of
                 Tolerance true tol \<Rightarrow> Raised TypeError out1
               | Scalar correct \<Rightarrow>
                   (case mcq_options correct d (option_draws q) (shuffle_draws q) of
                      None \<Rightarrow> Diverged out1
                    | Some opts \<Rightarrow>
                        (let out2 = out1 @ [Options opts]
                         in case get_choice (map ascii [''1'', ''2'', ''3'', ''4'']) stdin of
                              None \<Rightarrow> Raised EOFError out2
                            | Some (ev, c, rest) \<Rightarrow>
                                (case int_of_digits c of
                                   None \<Rightarrow> Raised ValueError (out2 @ ev)
                                 | Some k \<Rightarrow>
                                     (case py_get opts (k - 1) of
                                        None \<Rightarrow> Raised IndexError (out2 @ ev)
                                      | Some picked \<Rightarrow>
                                          if \<bar>picked - correct\<bar> < 1 / 10 ^ 9
                                          then approx_loop float_of d n env (i + 1) (score + 1)
                                                 rest (out2 @ ev @ [Correct])
                                          else approx_loop float_of d n env (i + 1) score
                                                 rest (out2 @ ev @ [Wrong correct]))))))))"
  by pat_completeness auto
termination
  by (relation "measure (\<lambda>(float_of, d, n, env, i, score, stdin, out). nat (n + 1 - i))") auto

declare approx_loop.simps [simp del]

definition run_approximations ::
  "(pystr \<Rightarrow> real option) \<Rightarrow> (pystr \<Rightarrow> int option) \<Rightarrow> session \<Rightarrow> pystr list
     \<Rightarrow> event list outcome" where
  "run_approximations float_of int_of env stdin =
     (case get_choice (map ascii [''easy'', ''medium'', ''hard'']) stdin of
        None \<Rightarrow> Raised EOFError [ApproxHeader]
      | Some (ev, difficulty, rest) \<Rightarrow>
          (case rest of
             [] \<Rightarrow> Raised EOFError (ApproxHeader # ev)
           | l # rest' \<Rightarrow>
               (case int_of l of
                  None \<Rightarrow> Raised ValueError (ApproxHeader # ev)
                | Some n \<Rightarrow>
                    (case approx_loop float_of (difficulty_of difficulty) n env 1 0 rest'
                            (ApproxHeader # ev) of
                       Returned (out, score) \<Rightarrow> Returned (out @ [Summary score n])
                     | Raised e out \<Rightarrow> Raised e out
                     | Diverged out \<Rightarrow> Diverged out))))"

text \<open>
  A concrete session for worked runs: every question is the easy addition
  \<open>50 + 60\<close>, the option draws give the deltas 1, 2, 3, the shuffle swaps nothing,
  and the clock shows \<open>100 * i\<close> seconds at the top of iteration \<open>i\<close>.
\<close>

definition demo_draws :: question_draws where
  "demo_draws =
     \<lparr>topic_draw = 0, first_draw = 30, second_draw = 40,
      option_draws = [23, 24, 25], shuffle_draws = draws_keep\<rparr>"

definition demo_session :: session where
  "demo_session =
     \<lparr>draws_of = (\<lambda>i. demo_draws),
      check_time = (\<lambda>i. 100 * of_int i),
      show_time = (\<lambda>i. 100 * of_int i + 1)\<rparr>"

text \<open>A second session, whose every question is \<open>sqrt\<close> of 16 at easy difficulty.\<close>

definition sqrt_session :: session where
  "sqrt_session =
     \<lparr>draws_of = (\<lambda>i. demo_draws\<lparr>first_draw := 11\<rparr>),
      check_time = (\<lambda>i. 0),
      show_time = (\<lambda>i. 0)\<rparr>"

text \<open>The number of questions that a run of the drill has put to the user.\<close>

fun is_drill_question :: "event \<Rightarrow> bool" where
  "is_drill_question (DrillQuestion i remaining q opts) = True"
| "is_drill_question _ = False"

definition questions_asked :: "event list \<Rightarrow> nat" where
  "questions_asked out = length (filter is_drill_question out)"

section \<open>Facts about rounding\<close>

lemma round_half_even_of_int: "round_half_even (of_int k) = k"
  by (simp add: round_half_even_def)

lemma round_ndigits_idem: "round_ndigits (round_ndigits x n) n = round_ndigits x n"
  by (simp add: round_ndigits_def round_half_even_of_int)

lemma randint_range: "a \<le> b \<Longrightarrow> a \<le> randint a b r \<and> randint a b r \<le> b"
proof -
  assume ab: "a \<le> b"
  then have pos: "0 < b - a + 1" by simp
  have "0 \<le> r mod (b - a + 1)" using pos by (rule pos_mod_sign)
  moreover have "r mod (b - a + 1) < b - a + 1" using pos by (rule pos_mod_bound)
  ultimately show ?thesis unfolding randint_def by linarith
qed

lemma gen_prob_coin:
  "choice prob_modes r0 = ''coin'' \<Longrightarrow>
   gen_prob d r0 r1 r2 =
     (CoinPrompt (randint 0 (randint 3 10 r1) r2) (randint 3 10 r1),
      round_ndigits ((1 / 2) ^ nat (randint 3 10 r1)) 5)"
  by (simp add: gen_prob_def Let_def)

lemma half_power_five_places:
  assumes "3 \<le> n" and "n \<le> (5::int)"
  shows "round_ndigits ((1 / 2) ^ nat n) 5 = (1 / 2) ^ nat n"
proof -
  from assms have "n = 3 \<or> n = 4 \<or> n = 5" by arith
  then show ?thesis by (elim disjE; hypsubst; code_simp)
qed

section \<open>Claims about the probability generator\<close>

text \<open>
  C2, as amended. In the coin sub-mode with \<open>n\<close> flips and the requested count \<open>k\<close>
  shown in the prompt, \<open>n\<close> lies in 3..10 and \<open>k\<close> in 0..n, and the returned answer is
  \<open>0.5 ^ n\<close> rounded to five decimals. The answer does not depend on the draw that
  fixes \<open>k\<close>. For \<open>n \<le> 5\<close> the rounding changes nothing, so the answer is \<open>0.5 ^ n\<close>
  itself, and for \<open>n = 4\<close> it is 0.0625 whatever \<open>k\<close> is.
\<close>

theorem gen_prob_coin_answer:
  assumes "choice prob_modes r0 = ''coin''"
    and "n = randint 3 10 r1"
    and "k = randint 0 n r2"
  shows "fst (gen_prob d r0 r1 r2) = CoinPrompt k n
       \<and> 3 \<le> n \<and> n \<le> 10 \<and> 0 \<le> k \<and> k \<le> n
       \<and> snd (gen_prob d r0 r1 r2) = round_ndigits ((1 / 2) ^ nat n) 5
       \<and> snd (gen_prob d r0 r1 r2') = snd (gen_prob d r0 r1 r2)
       \<and> (n \<le> 5 \<longrightarrow> snd (gen_prob d r0 r1 r2) = (1 / 2) ^ nat n)
       \<and> (n = 4 \<longrightarrow> snd (gen_prob d r0 r1 r2) = 625 / 10000)"
proof -
  have n: "3 \<le> n \<and> n \<le> 10" using randint_range [of 3 10 r1] assms(2) by simp
  then have k: "0 \<le> k \<and> k \<le> n" using randint_range [of 0 n r2] assms(3) by simp
  have ans: "snd (gen_prob d r0 r1 r2) = round_ndigits ((1 / 2) ^ nat n) 5"
    using assms by (simp add: gen_prob_coin)
  have ans': "snd (gen_prob d r0 r1 r2') = round_ndigits ((1 / 2) ^ nat n) 5"
    using assms by (simp add: gen_prob_coin)
  have small: "n \<le> 5 \<Longrightarrow> round_ndigits ((1 / 2) ^ nat n) 5 = (1 / 2) ^ nat n"
    using n by (simp add: half_power_five_places)
  have four: "n = 4 \<Longrightarrow> round_ndigits ((1 / 2) ^ nat n) 5 = 625 / 10000"
    by (hypsubst, code_simp)
  have pr: "fst (gen_prob d r0 r1 r2) = CoinPrompt k n"
    using assms by (simp add: gen_prob_coin)
  show ?thesis using n k ans ans' small four pr by simp
qed

theorem gen_prob_coin_answer_witness:
  "choice prob_modes 0 = ''coin'' \<and> randint 3 10 1 = 4 \<and> randint 0 4 7 = 2
   \<and> fst (gen_prob Hard 0 1 7) = CoinPrompt 2 4
   \<and> snd (gen_prob Hard 0 1 7) = 625 / 10000
   \<and> snd (gen_prob Hard 0 1 3) = snd (gen_prob Hard 0 1 7)"
proof -
  have a: "choice prob_modes 0 = ''coin''" by code_simp
  have b: "(4::int) = randint 3 10 1" by code_simp
  have c: "(2::int) = randint 0 4 7" by code_simp
  show ?thesis
    using gen_prob_coin_answer [OF a b c, of Hard 3] a b c by simp
qed

text \<open>
  C2 as stated fails from six flips on: \<open>0.5 ^ 6 = 0.015625\<close> has six decimals, and the
  generator returns it rounded to five, 0.01562.
\<close>

theorem gen_prob_coin_counterexample:
  "choice prob_modes 0 = ''coin''
   \<and> fst (gen_prob Easy 0 3 0) = CoinPrompt 0 6
   \<and> snd (gen_prob Easy 0 3 0) = 1562 / 100000
   \<and> snd (gen_prob Easy 0 3 0) \<noteq> (1 / 2) ^ 6"
  by code_simp

text \<open>
  C3, as amended. The coin sub-mode returns a value rounded to five decimals; the urn,
  interval and cond sub-modes return a value rounded to four decimals. The difficulty
  never changes the question or the answer.
\<close>

theorem gen_prob_rounding:
  "(choice prob_modes r0 = ''coin'' \<longrightarrow>
      round_ndigits (snd (gen_prob d r0 r1 r2)) 5 = snd (gen_prob d r0 r1 r2))
   \<and> (choice prob_modes r0 \<noteq> ''coin'' \<longrightarrow>
      round_ndigits (snd (gen_prob d r0 r1 r2)) 4 = snd (gen_prob d r0 r1 r2))
   \<and> gen_prob d' r0 r1 r2 = gen_prob d r0 r1 r2"
  by (simp add: gen_prob_def Let_def round_ndigits_idem)

theorem gen_prob_rounding_witness:
  "choice prob_modes 1 \<noteq> ''coin''
   \<and> gen_prob Easy 1 0 4 = (UrnPrompt 3 7, 3 / 10)
   \<and> round_ndigits (snd (gen_prob Easy 1 0 4)) 4 = snd (gen_prob Easy 1 0 4)
   \<and> gen_prob Hard 1 0 4 = gen_prob Easy 1 0 4
   \<and> choice prob_modes 0 = ''coin''
   \<and> round_ndigits (snd (gen_prob Easy 0 2 0)) 5 = snd (gen_prob Easy 0 2 0)"
proof -
  have a: "choice prob_modes 1 \<noteq> ''coin''" by code_simp
  have b: "gen_prob Easy 1 0 4 = (UrnPrompt 3 7, 3 / 10)" by code_simp
  have c: "choice prob_modes 0 = ''coin''" by code_simp
  show ?thesis
    using gen_prob_rounding [of 1 Easy 0 4 Hard] gen_prob_rounding [of 0 Easy 2 0 Hard] a b c
    by simp
qed

text \<open>
  C3 as stated fails in the coin sub-mode: with five flips the answer is 0.03125, which is
  not a four-decimal value (rounding it to four decimals gives 0.0312).
\<close>

theorem gen_prob_four_places_counterexample:
  "fst (gen_prob Easy 0 2 0) = CoinPrompt 0 5
   \<and> snd (gen_prob Easy 0 2 0) = 3125 / 100000
   \<and> round_ndigits (snd (gen_prob Easy 0 2 0)) 4 = 312 / 10000
   \<and> round_ndigits (snd (gen_prob Easy 0 2 0)) 4 \<noteq> snd (gen_prob Easy 0 2 0)"
  by code_simp

section \<open>Facts about the option generator\<close>

lemma mset_shuffle_from: "i < length xs \<Longrightarrow> mset (shuffle_from sh i xs) = mset xs"
proof (induction i arbitrary: xs)
  case 0
  then show ?case by simp
next
  case (Suc i)
  let ?j = "nat (sh (Suc i) mod int (Suc i + 1))"
  have "sh (Suc i) mod int (Suc i + 1) < int (Suc i + 1)" by (rule pos_mod_bound) simp
  then have "?j < Suc i + 1" by linarith
  then have j: "?j < length xs" using Suc.prems by linarith
  let ?ys = "xs[Suc i := xs ! ?j, ?j := xs ! Suc i]"
  have "mset ?ys = mset xs" using Suc.prems j by (simp add: mset_swap)
  moreover have "i < length ?ys" using Suc.prems by simp
  ultimately show ?case using Suc.IH [of ?ys] by (simp add: Let_def)
qed

lemma mset_shuffle: "mset (shuffle sh xs) = mset xs"
proof (cases xs)
  case Nil
  then show ?thesis by (simp add: shuffle_def)
next
  case (Cons a list)
  then show ?thesis by (simp add: shuffle_def mset_shuffle_from)
qed

lemma set_shuffle: "set (shuffle sh xs) = set xs"
  using mset_shuffle [of sh xs] by (metis set_mset_mset)

lemma length_shuffle: "length (shuffle sh xs) = length xs"
  using mset_shuffle [of sh xs] by (metis size_mset)

lemma distinct_shuffle: "distinct (shuffle sh xs) = distinct xs"
  using mset_shuffle [of sh xs] by (metis mset_eq_imp_distinct_iff)

lemma set_add_set: "set (set_add opts x) = insert x (set opts)"
  by (auto simp: set_add_def)

lemma set_add_distinct: "distinct opts \<Longrightarrow> distinct (set_add opts x)"
  by (simp add: set_add_def)

lemma set_add_length: "length opts < n \<Longrightarrow> length (set_add opts x) \<le> n"
  by (simp add: set_add_def)

lemma integer_loop_inv:
  assumes "integer_loop c m n opts rs = Some res"
    and "distinct opts" and "length opts \<le> n" and "0 \<le> m"
  shows "distinct res \<and> length res = n \<and> set opts \<subseteq> set res
       \<and> (\<forall>v \<in> set res. v \<in> set opts \<or> (\<exists>delta. delta \<noteq> 0 \<and> \<bar>delta\<bar> \<le> m \<and> v = c + delta))"
  using assms
proof (induction rs arbitrary: opts)
  case Nil
  then show ?case by (auto split: if_splits)
next
  case (Cons r rs)
  show ?case
  proof (cases "length opts < n")
    case False
    with Cons.prems show ?thesis by auto
  next
    case True
    let ?d = "randint (- m) m r"
    have rng: "\<bar>?d\<bar> \<le> m" using randint_range [of "- m" m r] Cons.prems(4) by linarith
    show ?thesis
    proof (cases "?d = 0")
      case z: True
      with True Cons.prems have "integer_loop c m n opts rs = Some res" by simp
      from Cons.IH [OF this Cons.prems(2) Cons.prems(3) Cons.prems(4)] show ?thesis .
    next
      case nz: False
      let ?o = "set_add opts (c + ?d)"
      from nz True Cons.prems have run: "integer_loop c m n ?o rs = Some res"
        by (simp add: Let_def)
      have d: "distinct ?o" using Cons.prems(2) by (rule set_add_distinct)
      have l: "length ?o \<le> n" using True by (rule set_add_length)
      from Cons.IH [OF run d l Cons.prems(4)]
      have ih: "distinct res \<and> length res = n \<and> set ?o \<subseteq> set res
         \<and> (\<forall>v \<in> set res. v \<in> set ?o \<or> (\<exists>delta. delta \<noteq> 0 \<and> \<bar>delta\<bar> \<le> m \<and> v = c + delta))" .
      have "\<forall>v \<in> set res. v \<in> set opts \<or> (\<exists>delta. delta \<noteq> 0 \<and> \<bar>delta\<bar> \<le> m \<and> v = c + delta)"
      proof
        fix v assume "v \<in> set res"
        with ih have "v \<in> set ?o \<or> (\<exists>delta. delta \<noteq> 0 \<and> \<bar>delta\<bar> \<le> m \<and> v = c + delta)" by blast
        then show "v \<in> set opts \<or> (\<exists>delta. delta \<noteq> 0 \<and> \<bar>delta\<bar> \<le> m \<and> v = c + delta)"
          using nz rng by (auto simp: set_add_set)
      qed
      with ih show ?thesis by (auto simp: set_add_set)
    qed
  qed
qed

lemma randint_hit: "a \<le> k \<Longrightarrow> k \<le> b \<Longrightarrow> randint a b (k - a) = k"
  by (simp add: randint_def)

lemma integer_loop_returns:
  assumes "3 \<le> m"
  shows "integer_loop c m 4 [c] [m + 1, m + 2, m + 3] = Some [c, c + 1, c + 2, c + 3]"
proof -
  have a: "randint (- m) m (m + 1) = 1" using randint_hit [of "- m" 1 m] assms by (simp add: add.commute)
  have b: "randint (- m) m (m + 2) = 2" using randint_hit [of "- m" 2 m] assms by (simp add: add.commute)
  have c: "randint (- m) m (m + 3) = 3" using randint_hit [of "- m" 3 m] assms by (simp add: add.commute)
  show ?thesis by (simp add: a b c set_add_def)
qed

lemma round_half_even_near:
  "x - 1 / 2 \<le> of_int (round_half_even x) \<and> of_int (round_half_even x) \<le> x + 1 / 2"
proof -
  have lo: "of_int \<lfloor>x\<rfloor> \<le> x" and hi: "x < of_int \<lfloor>x\<rfloor> + 1" by linarith+
  consider "x - of_int \<lfloor>x\<rfloor> < 1 / 2" | "1 / 2 < x - of_int \<lfloor>x\<rfloor>"
    | "x - of_int \<lfloor>x\<rfloor> = 1 / 2" by linarith
  then show ?thesis
  proof cases
    case 1
    then have e: "round_half_even x = \<lfloor>x\<rfloor>" by (simp add: round_half_even_def Let_def)
    show ?thesis unfolding e using 1 lo hi by linarith
  next
    case 2
    then have e: "round_half_even x = \<lfloor>x\<rfloor> + 1" by (simp add: round_half_even_def Let_def)
    show ?thesis unfolding e using 2 lo hi by linarith
  next
    case 3
    then have "round_half_even x = \<lfloor>x\<rfloor> \<or> round_half_even x = \<lfloor>x\<rfloor> + 1"
      by (simp add: round_half_even_def Let_def)
    then show ?thesis
    proof
      assume e: "round_half_even x = \<lfloor>x\<rfloor>"
      show ?thesis unfolding e using 3 by linarith
    next
      assume e: "round_half_even x = \<lfloor>x\<rfloor> + 1"
      show ?thesis unfolding e using 3 by linarith
    qed
  qed
qed


lemma random_unit_range: "0 \<le> random_unit r \<and> random_unit r < 1"
proof -
  have "0 \<le> r mod 2 ^ 53" by simp
  moreover have "r mod 2 ^ 53 < 2 ^ 53" by simp
  then have "real_of_int (r mod 2 ^ 53) < 2 ^ 53"
    by (metis of_int_less_iff of_int_numeral of_int_power)
  ultimately show ?thesis by (simp add: random_unit_def)
qed

lemma grid_apart:
  assumes "round_ndigits x n = x" and "round_ndigits y n = y" and "x \<noteq> y"
  shows "1 / 10 ^ n \<le> \<bar>x - y\<bar>"
proof -
  obtain a :: int where a: "x = of_int a / 10 ^ n"
    using assms(1) unfolding round_ndigits_def by metis
  obtain b :: int where b: "y = of_int b / 10 ^ n"
    using assms(2) unfolding round_ndigits_def by metis
  from assms(3) a b have "a \<noteq> b" by auto
  then have "1 \<le> \<bar>a - b\<bar>" by linarith
  then have "1 \<le> \<bar>real_of_int a - of_int b\<bar>" by linarith
  then have "1 / 10 ^ n \<le> \<bar>real_of_int a - of_int b\<bar> / 10 ^ n"
    by (simp add: divide_right_mono)
  also have "\<dots> = \<bar>x - y\<bar>" by (simp add: a b diff_divide_distrib [symmetric])
  finally show ?thesis .
qed

lemma filter_at_most_one:
  assumes "distinct xs"
    and "\<And>x y. x \<in> set xs \<Longrightarrow> y \<in> set xs \<Longrightarrow> P x \<Longrightarrow> P y \<Longrightarrow> x = y"
  shows "length (filter P xs) \<le> 1"
  using assms
proof (induction xs)
  case Nil
  then show ?case by simp
next
  case (Cons a xs)
  have ih: "length (filter P xs) \<le> 1" using Cons by auto
  show ?case
  proof (cases "P a")
    case False
    with ih show ?thesis by simp
  next
    case True
    have "filter P xs = []"
    proof (rule ccontr)
      assume "filter P xs \<noteq> []"
      then obtain y where y: "y \<in> set xs" "P y"
        by (metis filter_False)
      with True Cons.prems(2) [of a y] have "a = y" by simp
      with y Cons.prems(1) show False by simp
    qed
    with True show ?thesis by simp
  qed
qed

lemma filter_exactly_one:
  assumes "distinct xs"
    and "\<And>x y. x \<in> set xs \<Longrightarrow> y \<in> set xs \<Longrightarrow> P x \<Longrightarrow> P y \<Longrightarrow> x = y"
    and "z \<in> set xs" and "P z"
  shows "length (filter P xs) = 1"
proof -
  have "length (filter P xs) \<le> 1" using assms(1,2) by (rule filter_at_most_one)
  moreover have "z \<in> set (filter P xs)" using assms(3,4) by simp
  then have "0 < length (filter P xs)" by (metis length_pos_if_in_set)
  ultimately show ?thesis by linarith
qed

lemma decimal_loop_inv:
  assumes "decimal_loop c dec spread n opts rs = Some res"
    and "distinct opts" and "length opts \<le> n"
    and "\<forall>v \<in> set opts. round_ndigits v dec = v"
  shows "distinct res \<and> length res = n \<and> set opts \<subseteq> set res
       \<and> (\<forall>v \<in> set res. round_ndigits v dec = v)"
  using assms
proof (induction rs arbitrary: opts)
  case Nil
  then show ?case by (auto split: if_splits)
next
  case (Cons r rs)
  show ?case
  proof (cases "length opts < n")
    case False
    with Cons.prems show ?thesis by auto
  next
    case True
    let ?cand = "round_ndigits (c + (random_unit r - 5 / 10) * spread) dec"
    let ?o = "set_add opts ?cand"
    from True Cons.prems(1) have run: "decimal_loop c dec spread n ?o rs = Some res"
      by (simp add: Let_def)
    have d: "distinct ?o" using Cons.prems(2) by (rule set_add_distinct)
    have l: "length ?o \<le> n" using True by (rule set_add_length)
    have g: "\<forall>v \<in> set ?o. round_ndigits v dec = v"
      using Cons.prems(4) by (auto simp: set_add_set round_ndigits_idem)
    from Cons.IH [OF run d l g] show ?thesis by (auto simp: set_add_set)
  qed
qed

lemma round_ndigits_of_int_any: "round_ndigits (of_int k) n = of_int k"
proof -
  have "real_of_int k * 10 ^ n = of_int (k * 10 ^ n)" by simp
  then have "round_half_even (real_of_int k * 10 ^ n) = k * 10 ^ n"
    by (simp only: round_half_even_of_int)
  then show ?thesis by (simp add: round_ndigits_def)
qed

lemma decimals_le: "decimals d \<le> 3"
  by (cases d) simp_all

lemma generate_integer_distractors_inv:
  assumes "generate_integer_distractors c n rs sh = Some opts" and "1 \<le> n"
  shows "distinct opts \<and> length opts = n \<and> c \<in> set opts
       \<and> (\<forall>v \<in> set opts. v \<noteq> c \<longrightarrow>
            (\<exists>delta. delta \<noteq> 0 \<and> \<bar>delta\<bar> \<le> max 5 (\<bar>c\<bar> div 5) \<and> v = c + delta))"
proof -
  let ?m = "max 5 (\<bar>c\<bar> div 5)"
  from assms(1) obtain res where res: "integer_loop c ?m n [c] rs = Some res"
    and opts: "opts = shuffle sh res"
    by (auto simp: generate_integer_distractors_def Let_def)
  have "distinct [c]" and "length [c] \<le> n" and "0 \<le> ?m" using assms(2) by simp_all
  from integer_loop_inv [OF res this]
  have inv: "distinct res \<and> length res = n \<and> set [c] \<subseteq> set res
       \<and> (\<forall>v \<in> set res. v \<in> set [c] \<or> (\<exists>delta. delta \<noteq> 0 \<and> \<bar>delta\<bar> \<le> ?m \<and> v = c + delta))" .
  then show ?thesis
    by (auto simp: opts set_shuffle length_shuffle distinct_shuffle)
qed

lemma generate_decimal_distractors_inv:
  assumes "generate_decimal_distractors c d n rs sh = Some opts" and "1 \<le> n"
  shows "distinct opts \<and> length opts = n \<and> round_ndigits c (decimals d) \<in> set opts
       \<and> (\<forall>v \<in> set opts. round_ndigits v (decimals d) = v)"
proof -
  let ?s = "round_ndigits c (decimals d)"
  from assms(1) obtain res where
    res: "decimal_loop c (decimals d) (\<bar>c\<bar> * (15 / 100) + 1 / 10) n [?s] rs = Some res"
    and opts: "opts = shuffle sh res"
    by (auto simp: generate_decimal_distractors_def Let_def)
  have "distinct [?s]" and "length [?s] \<le> n"
    and "\<forall>v \<in> set [?s]. round_ndigits v (decimals d) = v"
    using assms(2) by (simp_all add: round_ndigits_idem)
  from decimal_loop_inv [OF res this]
  show ?thesis
    by (auto simp: opts set_shuffle length_shuffle distinct_shuffle)
qed

lemma mcq_options_inv:
  assumes "mcq_options c d rs sh = Some opts"
  shows "distinct opts \<and> length opts = 4 \<and> mcq_seed c d \<in> set opts
       \<and> (\<exists>n \<le> 3. \<forall>v \<in> set opts. round_ndigits v n = v)"
proof (cases "is_integer c")
  case True
  with assms obtain iopts where
    g: "generate_integer_distractors (py_int c) 4 rs sh = Some iopts"
    and opts: "opts = map of_int iopts"
    by (auto simp: mcq_options_def)
  from generate_integer_distractors_inv [OF g]
  have inv: "distinct iopts \<and> length iopts = 4 \<and> py_int c \<in> set iopts" by simp
  have "distinct opts" using inv by (simp add: opts distinct_map inj_on_def)
  moreover have "\<forall>v \<in> set opts. round_ndigits v 0 = v"
    by (auto simp: opts round_ndigits_of_int_any)
  ultimately show ?thesis using inv True by (auto simp: opts mcq_seed_def)
next
  case False
  with assms have g: "generate_decimal_distractors c d 4 rs sh = Some opts"
    by (simp add: mcq_options_def)
  from generate_decimal_distractors_inv [OF g] decimals_le [of d] False
  show ?thesis by (auto simp: mcq_seed_def)
qed

lemma options_apart:
  assumes "n \<le> 3" and "round_ndigits x n = x" and "round_ndigits y n = y" and "x \<noteq> y"
  shows "1 / 1000 \<le> \<bar>x - y\<bar>"
proof -
  have "(10::real) ^ n \<le> 10 ^ 3" using assms(1) by (intro power_increasing) simp_all
  then have "1 / 1000 \<le> 1 / (10::real) ^ n" by (simp add: frac_le)
  also have "\<dots> \<le> \<bar>x - y\<bar>" using assms(2-4) by (rule grid_apart)
  finally show ?thesis .
qed

lemma mcq_options_close_unique:
  assumes "mcq_options c d rs sh = Some opts"
    and "x \<in> set opts" and "y \<in> set opts"
    and "\<bar>x - c\<bar> < 1 / 10 ^ 9" and "\<bar>y - c\<bar> < 1 / 10 ^ 9"
  shows "x = y"
proof (rule ccontr)
  assume ne: "x \<noteq> y"
  from mcq_options_inv [OF assms(1)] obtain n where
    n: "n \<le> 3" and grid: "\<forall>v \<in> set opts. round_ndigits v n = v" by blast
  from grid assms(2,3) have "round_ndigits x n = x" and "round_ndigits y n = y" by simp_all
  from options_apart [OF n this ne] have "1 / 1000 \<le> \<bar>x - y\<bar>" .
  moreover have "\<bar>x - y\<bar> < 2 / 10 ^ 9" using assms(4,5) by linarith
  ultimately show False by simp
qed


lemma py_int_of_int: "py_int (of_int k) = k"
  by (simp add: py_int_def)

lemma is_integer_of_int: "is_integer (of_int k)"
  by (simp add: is_integer_def round_half_even_of_int)

lemma grid_integer:
  assumes "n \<le> 3" and "round_ndigits x n = x" and "is_integer x"
  shows "of_int (py_int x) = x"
proof -
  let ?k = "round_half_even x"
  have "x = of_int ?k"
  proof (rule ccontr)
    assume ne: "x \<noteq> of_int ?k"
    have "round_ndigits (of_int ?k) n = of_int ?k" by (rule round_ndigits_of_int_any)
    from options_apart [OF assms(1) assms(2) this ne] have "1 / 1000 \<le> \<bar>x - of_int ?k\<bar>" .
    moreover have "\<bar>x - of_int ?k\<bar> < 1 / 10 ^ 9" using assms(3) by (simp add: is_integer_def)
    ultimately show False by simp
  qed
  then have "of_int (py_int x) = real_of_int (py_int (of_int ?k))" by simp
  also have "\<dots> = of_int ?k" by (simp only: py_int_of_int)
  also have "\<dots> = x" using \<open>x = of_int ?k\<close> by simp
  finally show ?thesis .
qed

lemma mcq_seed_exact:
  assumes "round_ndigits c (decimals d) = c"
  shows "mcq_seed c d = c"
proof (cases "is_integer c")
  case True
  from grid_integer [OF decimals_le assms True] True show ?thesis by (simp add: mcq_seed_def)
next
  case False
  with assms show ?thesis by (simp add: mcq_seed_def)
qed

lemma generate_integer_distractors_returns:
  "generate_integer_distractors c 4
     [max 5 (\<bar>c\<bar> div 5) + 1, max 5 (\<bar>c\<bar> div 5) + 2, max 5 (\<bar>c\<bar> div 5) + 3] sh
   = Some (shuffle sh [c, c + 1, c + 2, c + 3])"
proof -
  have "3 \<le> max 5 (\<bar>c\<bar> div 5)" by simp
  from integer_loop_returns [OF this, of c] show ?thesis
    by (simp add: generate_integer_distractors_def Let_def)
qed

lemma mcq_options_integer:
  "is_integer c \<Longrightarrow>
   mcq_options c d rs sh = map_option (map of_int) (generate_integer_distractors (py_int c) 4 rs sh)"
  by (simp add: mcq_options_def)

lemma candidate_three:
  assumes "0 \<le> u" and "u < 1"
  shows "round_ndigits (3 / 10 + (u - 5 / 10) * (29 / 200)) 1 \<in> {2 / 10, 3 / 10, 4 / 10}"
proof -
  let ?y = "(3 / 10 + (u - 5 / 10) * (29 / 200)) * 10 ^ 1"
  let ?k = "round_half_even ?y"
  have "?y = 2275 / 1000 + (145 / 100) * u" by (simp add: field_simps)
  then have y: "2275 / 1000 \<le> ?y \<and> ?y < 3725 / 1000" using assms by linarith
  have "?y - 1 / 2 \<le> of_int ?k" and "of_int ?k \<le> ?y + 1 / 2"
    using round_half_even_near [of ?y] by blast+
  with y have "1 < real_of_int ?k" and "real_of_int ?k < 5" by linarith+
  then have "1 < ?k" and "?k < 5" by linarith+
  then have "?k = 2 \<or> ?k = 3 \<or> ?k = 4" by linarith
  then show ?thesis
  proof (elim disjE)
    assume "?k = 2"
    then show ?thesis unfolding round_ndigits_def by simp
  next
    assume "?k = 3"
    then show ?thesis unfolding round_ndigits_def by simp
  next
    assume "?k = 4"
    then show ?thesis unfolding round_ndigits_def by simp
  qed
qed

lemma decimal_loop_stuck:
  assumes "distinct opts" and "set opts \<subseteq> {2 / 10, 3 / 10, 4 / 10}"
  shows "decimal_loop (3 / 10) 1 (29 / 200) 4 opts rs = None"
  using assms
proof (induction rs arbitrary: opts)
  case Nil
  have "card (set opts) \<le> card {2 / 10, 3 / 10, 4 / 10 :: real}"
    using Nil.prems(2) by (intro card_mono) simp_all
  then have "length opts \<le> 3" using Nil.prems(1) by (simp add: distinct_card)
  then show ?case by simp
next
  case (Cons r rs)
  have "card (set opts) \<le> card {2 / 10, 3 / 10, 4 / 10 :: real}"
    using Cons.prems(2) by (intro card_mono) simp_all
  then have len: "length opts < 4" using Cons.prems(1) by (simp add: distinct_card)
  let ?cand = "round_ndigits (3 / 10 + (random_unit r - 5 / 10) * (29 / 200)) 1"
  have c: "?cand \<in> {2 / 10, 3 / 10, 4 / 10}"
    using random_unit_range [of r] by (intro candidate_three) simp_all
  have d: "distinct (set_add opts ?cand)" using Cons.prems(1) by (rule set_add_distinct)
  have s: "set (set_add opts ?cand) \<subseteq> {2 / 10, 3 / 10, 4 / 10}"
    using Cons.prems(2) c by (auto simp: set_add_set)
  from Cons.IH [OF d s] len show ?case by (simp add: Let_def)
qed

lemma mcq_options_never_returns: "mcq_options (3 / 10) Easy rs sh = None"
proof -
  have ni: "\<not> is_integer (3 / 10)" by code_simp
  have seed: "round_ndigits (3 / 10) 1 = 3 / 10" by code_simp
  have spread: "\<bar>3 / 10\<bar> * (15 / 100) + 1 / 10 = (29 / 200 :: real)" by simp
  have stuck: "decimal_loop (3 / 10) 1 (29 / 200) 4 [3 / 10] rs = None"
    by (rule decimal_loop_stuck) simp_all
  have "generate_decimal_distractors (3 / 10) Easy 4 rs sh = None"
    unfolding generate_decimal_distractors_def Let_def decimals.simps seed spread stuck
    by simp
  then show ?thesis using ni by (simp add: mcq_options_def)
qed

section \<open>Claims about the option generator\<close>

text \<open>
  C6. For an integer \<open>correct\<close> the test \<open>is_integer\<close> holds and \<open>mcq_options\<close>
  takes the integer branch. With \<open>magnitude = max(5, |correct| // 5)\<close>, a returned
  option list has exactly 4 pairwise distinct members, \<open>correct\<close> is one of them, and
  every other member is \<open>correct + delta\<close> for a nonzero integer \<open>delta\<close> with
  \<open>|delta| \<le> magnitude\<close>. There are draws for which the loop ends.
\<close>

theorem integer_branch_members:
  assumes "generate_integer_distractors correct 4 rs sh = Some opts"
  shows "is_integer (of_int correct)
       \<and> mcq_options (of_int correct) d rs sh = Some (map of_int opts)
       \<and> length opts = 4 \<and> distinct opts \<and> correct \<in> set opts
       \<and> (\<forall>v \<in> set opts. v \<noteq> correct \<longrightarrow>
            (\<exists>delta. delta \<noteq> 0 \<and> \<bar>delta\<bar> \<le> max 5 (\<bar>correct\<bar> div 5) \<and> v = correct + delta))
       \<and> (\<exists>rs'. \<forall>sh'. generate_integer_distractors correct 4 rs' sh' \<noteq> None)"
proof -
  have i: "is_integer (of_int correct)" by (rule is_integer_of_int)
  have m: "mcq_options (of_int correct) d rs sh = Some (map of_int opts)"
    using assms by (simp add: mcq_options_integer [OF i] py_int_of_int)
  have inv: "distinct opts \<and> length opts = 4 \<and> correct \<in> set opts
       \<and> (\<forall>v \<in> set opts. v \<noteq> correct \<longrightarrow>
            (\<exists>delta. delta \<noteq> 0 \<and> \<bar>delta\<bar> \<le> max 5 (\<bar>correct\<bar> div 5) \<and> v = correct + delta))"
    using generate_integer_distractors_inv [OF assms] by simp
  have "\<forall>sh'. generate_integer_distractors correct 4
     [max 5 (\<bar>correct\<bar> div 5) + 1, max 5 (\<bar>correct\<bar> div 5) + 2,
      max 5 (\<bar>correct\<bar> div 5) + 3] sh' \<noteq> None"
    by (simp add: generate_integer_distractors_returns)
  then have r: "\<exists>rs'. \<forall>sh'. generate_integer_distractors correct 4 rs' sh' \<noteq> None" by blast
  show ?thesis using i m inv r by blast
qed

theorem integer_branch_members_witness:
  "generate_integer_distractors (- 100) 4 [0, 20, 40, 21] draws_zero
     = Some [- 120, - 80, - 99, - 100]
   \<and> max 5 (\<bar>- 100\<bar> div 5) = (20::int)
   \<and> mcq_options (- 100) Medium [0, 20, 40, 21] draws_zero = Some [- 120, - 80, - 99, - 100]"
proof -
  have a: "generate_integer_distractors (- 100) 4 [0, 20, 40, 21] draws_zero
     = Some [- 120, - 80, - 99, - 100]" by code_simp
  have b: "max 5 (\<bar>- 100\<bar> div 5) = (20::int)" by simp
  show ?thesis using integer_branch_members [OF a, of Medium] a b by simp
qed

text \<open>
  What holds of a list that \<open>mcq_options\<close> returns: it has 4 pairwise distinct
  members, the seed of the branch taken is one of them, and at most one member is within
  1e-9 of \<open>correct\<close>; one is when the seed is.
\<close>

lemma mcq_options_returned:
  "(mcq_options correct d rs sh = Some opts \<longrightarrow>
      length opts = 4 \<and> distinct opts \<and> mcq_seed correct d \<in> set opts
      \<and> count_close correct opts \<le> 1
      \<and> (\<bar>mcq_seed correct d - correct\<bar> < 1 / 10 ^ 9 \<longrightarrow> count_close correct opts = 1)
      \<and> (round_ndigits correct (decimals d) = correct \<longrightarrow> count_close correct opts = 1))
   \<and> (is_integer correct \<longrightarrow> (\<exists>rs'. \<forall>sh'. mcq_options correct d rs' sh' \<noteq> None))"
proof (intro conjI impI)
  assume run: "mcq_options correct d rs sh = Some opts"
  let ?P = "\<lambda>v. \<bar>v - correct\<bar> < 1 / 10 ^ 9"
  from mcq_options_inv [OF run]
  have inv: "distinct opts" "length opts = 4" "mcq_seed correct d \<in> set opts" by simp_all
  have uniq: "\<And>x y. x \<in> set opts \<Longrightarrow> y \<in> set opts \<Longrightarrow> ?P x \<Longrightarrow> ?P y \<Longrightarrow> x = y"
    using mcq_options_close_unique [OF run] by blast
  show "length opts = 4" by (rule inv(2))
  show "distinct opts" by (rule inv(1))
  show "mcq_seed correct d \<in> set opts" by (rule inv(3))
  show "count_close correct opts \<le> 1"
    unfolding count_close_def using inv(1) uniq by (rule filter_at_most_one)
  have eq: "?P (mcq_seed correct d) \<Longrightarrow> count_close correct opts = 1"
    unfolding count_close_def using inv(1) uniq inv(3) by (rule filter_exactly_one)
  {
    assume "\<bar>mcq_seed correct d - correct\<bar> < 1 / 10 ^ 9"
    then show "count_close correct opts = 1" by (rule eq)
  }
  {
    assume "round_ndigits correct (decimals d) = correct"
    then have "mcq_seed correct d = correct" by (rule mcq_seed_exact)
    then have "?P (mcq_seed correct d)" by simp
    then show "count_close correct opts = 1" by (rule eq)
  }
next
  assume i: "is_integer correct"
  let ?c = "py_int correct"
  have "\<forall>sh'. mcq_options correct d
     [max 5 (\<bar>?c\<bar> div 5) + 1, max 5 (\<bar>?c\<bar> div 5) + 2, max 5 (\<bar>?c\<bar> div 5) + 3] sh' \<noteq> None"
    by (simp add: mcq_options_integer [OF i] generate_integer_distractors_returns)
  then show "\<exists>rs'. \<forall>sh'. mcq_options correct d rs' sh' \<noteq> None" by blast
qed

text \<open>
  C1, evaluated at two inputs that the probability mode passes to \<open>mcq_options\<close>.
  At medium difficulty the urn question with 3 red and 4 blue has the answer 0.4286;
  the option set is seeded with 0.43, and with the draws 0.75, 0.25 and 0 of
  \<open>random()\<close> the call returns 0.35, 0.39, 0.47 and 0.43, none of them within 1e-9 of
  the answer. At easy difficulty the urn question with 3 red and 7 blue has the answer
  0.3; every candidate is 0.2, 0.3 or 0.4, the set never has four members, and the call
  returns for no draws at all.
\<close>

theorem mcq_options_defects:
  "gen_prob Medium 1 0 1 = (UrnPrompt 3 4, 4286 / 10000)
   \<and> mcq_options (4286 / 10000) Medium [6755399441055744, 2251799813685248, 0] draws_zero
       = Some [47 / 100, 39 / 100, 35 / 100, 43 / 100]
   \<and> count_close (4286 / 10000) [47 / 100, 39 / 100, 35 / 100, 43 / 100] = 0
   \<and> gen_prob Easy 1 0 4 = (UrnPrompt 3 7, 3 / 10)
   \<and> (\<forall>rs sh. mcq_options (3 / 10) Easy rs sh = None)"
proof -
  have a: "gen_prob Medium 1 0 1 = (UrnPrompt 3 4, 4286 / 10000)" by code_simp
  have b: "mcq_options (4286 / 10000) Medium [6755399441055744, 2251799813685248, 0] draws_zero
       = Some [47 / 100, 39 / 100, 35 / 100, 43 / 100]" by code_simp
  have c: "count_close (4286 / 10000) [47 / 100, 39 / 100, 35 / 100, 43 / 100] = 0"
    by code_simp
  have e: "gen_prob Easy 1 0 4 = (UrnPrompt 3 7, 3 / 10)" by code_simp
  have f: "\<forall>rs sh. mcq_options (3 / 10) Easy rs sh = None"
    by (simp add: mcq_options_never_returns)
  show ?thesis by (intro conjI a b c e f)
qed

section \<open>Facts about the rounding to double precision\<close>

lemma bit_length_bounds:
  "0 < n \<Longrightarrow> 2 ^ (bit_length n - 1) \<le> n \<and> n < 2 ^ bit_length n"
proof (induction n rule: bit_length.induct)
  case (1 n)
  show ?case
  proof (cases "n = 1")
    case True
    have "bit_length 1 = 1" by (simp add: bit_length.simps)
    then show ?thesis using True by simp
  next
    case False
    with "1.prems" have h: "0 < n div 2" by simp
    have nn: "\<not> n \<le> 0" using "1.prems" by simp
    from "1.IH" [OF nn h]
    have ih: "2 ^ (bit_length (n div 2) - 1) \<le> n div 2" "n div 2 < 2 ^ bit_length (n div 2)"
      by simp_all
    have bl: "bit_length n = Suc (bit_length (n div 2))"
      using nn by (subst bit_length.simps) simp
    have pos: "0 < bit_length (n div 2)"
      using h by (subst bit_length.simps) simp
    then have e: "2 ^ (bit_length (n div 2)) = (2::int) * 2 ^ (bit_length (n div 2) - 1)"
      by (metis Suc_pred' power_Suc)
    have "2 * 2 ^ (bit_length (n div 2) - 1) \<le> 2 * (n div 2)" using ih(1) by simp
    also have "\<dots> \<le> n" by simp
    finally have lo: "2 ^ (bit_length n - 1) \<le> n" unfolding bl using e by simp
    have "n < 2 * (n div 2) + 2" by simp
    also have "\<dots> \<le> 2 * 2 ^ bit_length (n div 2)" using ih(2) by simp
    finally have hi: "n < 2 ^ bit_length n" unfolding bl by simp
    from lo hi show ?thesis by simp
  qed
qed

lemma pow2_pos: "0 < pow2 e"
  by (simp add: pow2_def)

lemma pow2_shift: "0 \<le> b \<Longrightarrow> pow2 (b - 52) = 2 ^ nat b / 2 ^ 52"
proof -
  assume b: "0 \<le> b"
  show ?thesis
  proof (cases "52 \<le> b")
    case True
    then have "nat b = nat (b - 52) + 52" by simp
    then have "(2::real) ^ nat b = 2 ^ nat (b - 52) * 2 ^ 52" by (simp only: power_add)
    with True show ?thesis by (simp add: pow2_def)
  next
    case False
    then have "52 = nat (- (b - 52)) + nat b" using b by simp
    then have h: "(2::real) ^ 52 = 2 ^ nat (- (b - 52)) * 2 ^ nat b" by (simp only: power_add)
    have "2 ^ nat b / (2::real) ^ 52 = 2 ^ nat b / (2 ^ nat (- (b - 52)) * 2 ^ nat b)"
      by (simp only: h)
    also have "\<dots> = 1 / 2 ^ nat (- (b - 52))" by simp
    finally have "1 / 2 ^ nat (- (b - 52)) = 2 ^ nat b / (2::real) ^ 52" by simp
    moreover have "pow2 (b - 52) = 1 / 2 ^ nat (- (b - 52))" using False by (simp add: pow2_def)
    ultimately show ?thesis by (simp only:)
  qed
qed

lemma binade_le:
  assumes "1 \<le> x"
  shows "0 \<le> binade x \<and> 2 ^ nat (binade x) \<le> x"
proof -
  have f: "0 < \<lfloor>x\<rfloor>" using assms by simp
  from bit_length_bounds [OF f] have lo: "2 ^ (bit_length \<lfloor>x\<rfloor> - 1) \<le> \<lfloor>x\<rfloor>" by simp
  have pos: "0 < bit_length \<lfloor>x\<rfloor>" using f by (subst bit_length.simps) simp
  have b: "binade x = int (bit_length \<lfloor>x\<rfloor>) - 1" using assms by (simp add: binade_def)
  then have nb: "nat (binade x) = bit_length \<lfloor>x\<rfloor> - 1" using pos by simp
  have "real_of_int (2 ^ (bit_length \<lfloor>x\<rfloor> - 1)) \<le> of_int \<lfloor>x\<rfloor>" using lo by (simp only: of_int_le_iff)
  also have "\<dots> \<le> x" by simp
  finally have "2 ^ (bit_length \<lfloor>x\<rfloor> - 1) \<le> x" by simp
  then show ?thesis using b pos nb by simp
qed

lemma fl_error:
  assumes "1 \<le> x"
  shows "\<bar>fl x - x\<bar> \<le> x / 2 ^ 53"
proof -
  let ?e = "binade \<bar>x\<bar> - 52"
  let ?m = "round_half_even (\<bar>x\<bar> / pow2 ?e)"
  have ax: "\<bar>x\<bar> = x" and nz: "x \<noteq> 0" and sg: "sgn x = 1" using assms by simp_all
  have p: "0 < pow2 ?e" by (rule pow2_pos)
  from binade_le [OF assms] have "0 \<le> binade \<bar>x\<bar>" unfolding ax by simp
  then have mx: "max (binade \<bar>x\<bar> - 52) (- 1074) = binade \<bar>x\<bar> - 52" by simp
  have flx: "fl x = of_int ?m * pow2 ?e" using nz sg by (simp add: fl_def Let_def mx)
  have "\<bar>of_int ?m - \<bar>x\<bar> / pow2 ?e\<bar> \<le> 1 / 2"
    using round_half_even_near [of "\<bar>x\<bar> / pow2 ?e"] by linarith
  then have "\<bar>of_int ?m - \<bar>x\<bar> / pow2 ?e\<bar> * pow2 ?e \<le> 1 / 2 * pow2 ?e"
    using p by (intro mult_right_mono) simp_all
  moreover have "\<bar>of_int ?m - \<bar>x\<bar> / pow2 ?e\<bar> * pow2 ?e = \<bar>of_int ?m * pow2 ?e - \<bar>x\<bar>\<bar>"
  proof -
    have "(of_int ?m - \<bar>x\<bar> / pow2 ?e) * pow2 ?e = of_int ?m * pow2 ?e - \<bar>x\<bar>"
      using p by (simp add: left_diff_distrib)
    moreover have "\<bar>of_int ?m - \<bar>x\<bar> / pow2 ?e\<bar> * pow2 ?e
                   = \<bar>(of_int ?m - \<bar>x\<bar> / pow2 ?e) * pow2 ?e\<bar>"
      using p by (simp add: abs_mult)
    ultimately show ?thesis by simp
  qed
  ultimately have near: "\<bar>fl x - x\<bar> \<le> pow2 ?e / 2" unfolding flx ax by simp
  from binade_le [OF assms] have b0: "0 \<le> binade x" and b1: "2 ^ nat (binade x) \<le> x" by simp_all
  have "pow2 ?e = 2 ^ nat (binade x) / 2 ^ 52" unfolding ax using b0 by (rule pow2_shift)
  also have "\<dots> \<le> x / 2 ^ 52" using b1 by (simp add: divide_right_mono)
  finally have "pow2 ?e / 2 \<le> x / 2 ^ 52 / 2" by simp
  also have "\<dots> = x / 2 ^ 53" by simp
  finally show ?thesis using near by linarith
qed

lemma tie_gap:
  assumes "0 < b" and "of_int a / of_int b * 10 ^ n \<noteq> real_of_int k + 1 / 2"
  shows "1 / (2 * of_int b) \<le> \<bar>of_int a / of_int b * 10 ^ n - (real_of_int k + 1 / 2)\<bar>"
proof -
  let ?num = "2 * a * 10 ^ n - (2 * k + 1) * b"
  have bp: "0 < real_of_int b" using assms(1) by simp
  have eq: "of_int a / of_int b * 10 ^ n - (real_of_int k + 1 / 2)
              = real_of_int ?num / (2 * of_int b)"
    using bp by (simp add: field_simps)
  have "?num \<noteq> 0"
  proof
    assume z: "?num = 0"
    have "of_int a / of_int b * 10 ^ n - (real_of_int k + 1 / 2) = 0"
      by (simp only: eq z of_int_0 div_0)
    then show False using assms(2) by linarith
  qed
  then have "1 \<le> \<bar>?num\<bar>" by linarith
  then have "1 \<le> \<bar>real_of_int ?num\<bar>" by linarith
  then have "1 / (2 * of_int b) \<le> \<bar>real_of_int ?num\<bar> / (2 * of_int b)"
    using bp by (intro divide_right_mono) simp_all
  also have "\<dots> = \<bar>real_of_int ?num / (2 * of_int b)\<bar>" using bp by (simp add: abs_divide)
  finally show ?thesis unfolding eq .
qed

lemma round_fl_near:
  assumes "0 < b" and "1 \<le> real_of_int a / of_int b"
    and "real_of_int a / of_int b * 10 ^ n / 2 ^ 53 < 1 / (2 * of_int b)"
  shows "\<bar>round_ndigits (fl (of_int a / of_int b)) n - of_int a / of_int b\<bar> \<le> 1 / (2 * 10 ^ n)"
proof -
  define q where "q = real_of_int a / of_int b"
  define y where "y = q * 10 ^ n"
  define y' where "y' = fl q * 10 ^ n"
  define K where "K = round_half_even y'"
  define g where "g = 1 / (2 * real_of_int b)"
  have p: "(0::real) < 10 ^ n" by simp
  have "\<bar>fl q - q\<bar> \<le> q / 2 ^ 53" using assms(2) unfolding q_def by (rule fl_error)
  then have "\<bar>fl q - q\<bar> * 10 ^ n \<le> q / 2 ^ 53 * 10 ^ n"
    using p by (intro mult_right_mono) simp_all
  moreover have "\<bar>fl q - q\<bar> * 10 ^ n = \<bar>y' - y\<bar>"
  proof -
    have "(fl q - q) * 10 ^ n = y' - y" unfolding y'_def y_def by (simp add: left_diff_distrib)
    moreover have "\<bar>fl q - q\<bar> * 10 ^ n = \<bar>(fl q - q) * 10 ^ n\<bar>" using p by (simp add: abs_mult)
    ultimately show ?thesis by simp
  qed
  moreover have "q / 2 ^ 53 * 10 ^ n = q * 10 ^ n / 2 ^ 53" by simp
  ultimately have "\<bar>y' - y\<bar> \<le> q * 10 ^ n / 2 ^ 53" by simp
  moreover have "q * 10 ^ n / 2 ^ 53 < g" using assms(3) unfolding q_def g_def .
  ultimately have close: "\<bar>y' - y\<bar> < g" by linarith
  have nearK: "y' - 1 / 2 \<le> of_int K" "of_int K \<le> y' + 1 / 2"
    using round_half_even_near [of y'] unfolding K_def by blast+
  have gap: "\<And>k. y \<noteq> real_of_int k + 1 / 2 \<Longrightarrow> g \<le> \<bar>y - (real_of_int k + 1 / 2)\<bar>"
    unfolding y_def q_def g_def using assms(1) by (rule tie_gap)
  have "\<bar>of_int K - y\<bar> \<le> 1 / 2"
  proof (rule ccontr)
    assume "\<not> \<bar>of_int K - y\<bar> \<le> 1 / 2"
    then consider "y < of_int K - 1 / 2" | "of_int K + 1 / 2 < y" by linarith
    then show False
    proof cases
      case 1
      then have lt: "y < real_of_int (K - 1) + 1 / 2" by simp
      then have "y \<noteq> real_of_int (K - 1) + 1 / 2" by simp
      from gap [OF this] lt have "g \<le> real_of_int (K - 1) + 1 / 2 - y" by linarith
      moreover have "real_of_int (K - 1) + 1 / 2 \<le> y'" using nearK(2) by simp
      ultimately show False using close by linarith
    next
      case 2
      then have "y \<noteq> real_of_int K + 1 / 2" by simp
      from gap [OF this] 2 have "g \<le> y - (real_of_int K + 1 / 2)" by linarith
      with nearK(1) close show False by linarith
    qed
  qed
  then have "\<bar>of_int K - y\<bar> / 10 ^ n \<le> (1 / 2) / 10 ^ n"
    using p by (intro divide_right_mono) simp_all
  moreover have "\<bar>of_int K - y\<bar> / 10 ^ n = \<bar>of_int K / 10 ^ n - q\<bar>"
  proof -
    have "of_int K / 10 ^ n - q = (of_int K - y) / 10 ^ n"
      unfolding y_def using p by (simp add: diff_divide_distrib)
    then show ?thesis using p by (simp add: abs_divide)
  qed
  moreover have "(1 / 2) / 10 ^ n = 1 / (2 * 10 ^ n :: real)" by simp
  ultimately have "\<bar>of_int K / 10 ^ n - q\<bar> \<le> 1 / (2 * 10 ^ n)" by (simp only:)
  then show ?thesis unfolding K_def y'_def q_def round_ndigits_def .
qed

lemma float_quotient_rounding:
  assumes "0 < b" and "b \<le> a" and "a \<le> 4000" and "n \<le> 3"
  shows "\<bar>round_ndigits (fl (of_int a / of_int b)) n - of_int a / of_int b\<bar> \<le> 1 / (2 * 10 ^ n)"
proof (rule round_fl_near)
  show "0 < b" by (rule assms(1))
  have bp: "0 < real_of_int b" using assms(1) by simp
  have "real_of_int b \<le> of_int a" using assms(2) by simp
  then show "1 \<le> real_of_int a / of_int b" using bp by (simp add: field_simps)
  have "(10::real) ^ n \<le> 10 ^ 3" using assms(4) by (intro power_increasing) simp_all
  moreover have "real_of_int a \<le> 4000" and "0 \<le> real_of_int a" using assms(1-3) by simp_all
  ultimately have "real_of_int a * 10 ^ n \<le> 4000 * 10 ^ 3" by (intro mult_mono) simp_all
  then have "real_of_int a * 10 ^ n / 2 ^ 53 < 1 / 2" by simp
  then have "real_of_int a * 10 ^ n / 2 ^ 53 / of_int b < 1 / 2 / of_int b"
    using bp by (rule divide_strict_right_mono)
  then show "real_of_int a / of_int b * 10 ^ n / 2 ^ 53 < 1 / (2 * of_int b)"
    by (simp add: field_simps)
qed

lemma round_ndigits_near: "\<bar>round_ndigits x n - x\<bar> \<le> 1 / (2 * 10 ^ n)"
proof -
  let ?k = "round_half_even (x * 10 ^ n)"
  have p: "(0::real) < 10 ^ n" by simp
  have h: "\<bar>of_int ?k - x * 10 ^ n\<bar> \<le> 1 / 2"
    using round_half_even_near [of "x * 10 ^ n"] by linarith
  have "\<bar>of_int ?k - x * 10 ^ n\<bar> / 10 ^ n \<le> (1 / 2) / 10 ^ n"
    using h p by (intro divide_right_mono) simp_all
  moreover have "(1 / 2) / 10 ^ n = 1 / (2 * 10 ^ n :: real)" by simp
  moreover have "\<bar>of_int ?k - x * 10 ^ n\<bar> / 10 ^ n = \<bar>of_int ?k / 10 ^ n - x\<bar>"
  proof -
    have "of_int ?k / 10 ^ n - x = (of_int ?k - x * 10 ^ n) / 10 ^ n"
      using p by (simp add: diff_divide_distrib)
    then show ?thesis using p by (simp add: abs_divide)
  qed
  ultimately have "\<bar>of_int ?k / 10 ^ n - x\<bar> \<le> 1 / (2 * 10 ^ n)" by (simp only:)
  then show ?thesis by (simp only: round_ndigits_def)
qed

lemma round_to_difficulty_decimals: "round_to_difficulty v d = round_ndigits v (decimals d)"
  by (cases d) simp_all

section \<open>Facts about the arithmetic generators\<close>

lemma choice_mem: "xs \<noteq> [] \<Longrightarrow> choice xs r \<in> set xs"
proof -
  assume ne: "xs \<noteq> []"
  then have pos: "0 < int (length xs)" by simp
  have "r mod int (length xs) < int (length xs)" using pos by (rule pos_mod_bound)
  moreover have "0 \<le> r mod int (length xs)" using pos by (rule pos_mod_sign)
  ultimately have "nat (r mod int (length xs)) < length xs" by linarith
  then show ?thesis unfolding choice_def by (rule nth_mem)
qed

lemma between_randint: "lo \<le> hi \<Longrightarrow> between lo hi (randint lo hi r)"
  using randint_range [of lo hi r] by (simp add: between_def)

lemma add_answer:
  "in_band Addition d (fst (ARITH Addition d r1 r2))
   \<and> exact_result (fst (ARITH Addition d r1 r2)) = Some (snd (ARITH Addition d r1 r2))"
  by (cases d) (simp_all add: Let_def int_answer_def in_band_def between_randint)

lemma sub_answer:
  "in_band Subtraction d (fst (ARITH Subtraction d r1 r2))
   \<and> exact_result (fst (ARITH Subtraction d r1 r2)) = Some (snd (ARITH Subtraction d r1 r2))"
  by (cases d) (simp_all add: Let_def int_answer_def in_band_def between_randint)

lemma mul_answer:
  "in_band Multiplication d (fst (ARITH Multiplication d r1 r2))
   \<and> exact_result (fst (ARITH Multiplication d r1 r2))
       = Some (snd (ARITH Multiplication d r1 r2))"
  by (cases d) (simp_all add: Let_def int_answer_def in_band_def between_randint)

lemma square_answer:
  "in_band Square d (fst (ARITH Square d r1 r2))
   \<and> exact_result (fst (ARITH Square d r1 r2)) = Some (snd (ARITH Square d r1 r2))"
  by (cases d) (simp_all add: Let_def int_answer_def in_band_def between_randint)

lemma cube_answer:
  "in_band Cube d (fst (ARITH Cube d r1 r2))
   \<and> exact_result (fst (ARITH Cube d r1 r2)) = Some (snd (ARITH Cube d r1 r2))"
  by (cases d) (simp_all add: Let_def int_answer_def in_band_def between_randint power3_eq_cube)

lemma div_easy_answer:
  "in_band Division Easy (fst (gen_div Easy r1 r2))
   \<and> exact_result (fst (gen_div Easy r1 r2)) = Some (snd (gen_div Easy r1 r2))"
proof -
  let ?b = "choice [2, 4, 5, 8::int] r1"
  let ?q = "randint 2 50 r2"
  have b: "?b \<in> set [2, 4, 5, 8]" by (rule choice_mem) simp
  then have nz: "?b \<noteq> 0" by auto
  have q: "between 2 50 ?q" by (rule between_randint) simp
  have "(?b * ?q) mod ?b = 0" by simp
  moreover have "(?b * ?q) div ?b = ?q" using nz by simp
  ultimately show ?thesis using b q by (simp add: Let_def in_band_def)
qed

lemma div_answer:
  "in_band Division d (fst (ARITH Division d r1 r2))
   \<and> (\<exists>v. exact_result (fst (ARITH Division d r1 r2)) = Some v
        \<and> snd (ARITH Division d r1 r2) = (if d = Easy then v else round_to_difficulty (fl v) d))"
proof (cases d)
  case Easy
  then show ?thesis using div_easy_answer [of r1 r2] by simp
next
  case Medium
  then show ?thesis by (simp add: Let_def in_band_def between_randint)
next
  case Hard
  then show ?thesis by (simp add: Let_def in_band_def between_randint)
qed

lemma div_nearest:
  assumes "d \<noteq> Easy" and "exact_result (fst (ARITH Division d r1 r2)) = Some v"
  shows "\<bar>snd (ARITH Division d r1 r2) - v\<bar> \<le> 1 / (2 * 10 ^ decimals d)"
proof (cases d)
  case Easy
  with assms(1) show ?thesis by simp
next
  case Medium
  let ?b = "randint 2 40 r1" and ?a = "randint 50 800 r2"
  have b: "2 \<le> ?b \<and> ?b \<le> 40" using randint_range [of 2 40 r1] by simp
  have a: "50 \<le> ?a \<and> ?a \<le> 800" using randint_range [of 50 800 r2] by simp
  have v: "v = of_int ?a / of_int ?b" using assms(2) Medium by (simp add: Let_def)
  have "\<bar>round_ndigits (fl (of_int ?a / of_int ?b)) 2 - of_int ?a / of_int ?b\<bar> \<le> 1 / (2 * 10 ^ 2)"
    using a b by (intro float_quotient_rounding) simp_all
  then show ?thesis using Medium v by (simp add: Let_def)
next
  case Hard
  let ?b = "randint 3 90 r1" and ?a = "randint 100 4000 r2"
  have b: "3 \<le> ?b \<and> ?b \<le> 90" using randint_range [of 3 90 r1] by simp
  have a: "100 \<le> ?a \<and> ?a \<le> 4000" using randint_range [of 100 4000 r2] by simp
  have v: "v = of_int ?a / of_int ?b" using assms(2) Hard by (simp add: Let_def)
  have "\<bar>round_ndigits (fl (of_int ?a / of_int ?b)) 3 - of_int ?a / of_int ?b\<bar> \<le> 1 / (2 * 10 ^ 3)"
    using a b by (intro float_quotient_rounding) simp_all
  then show ?thesis using Hard v by (simp add: Let_def)
qed

lemma hard_dec_range:
  "1 / 1000 \<le> round_ndigits (uniform (1 / 1000) (9 / 10) r) 3
   \<and> round_ndigits (uniform (1 / 1000) (9 / 10) r) 3 \<le> 9 / 10"
proof -
  let ?y = "uniform (1 / 1000) (9 / 10) r * 10 ^ 3"
  let ?k = "round_half_even ?y"
  have u: "0 \<le> random_unit r" "random_unit r < 1" using random_unit_range [of r] by simp_all
  have "?y = 1 + 899 * random_unit r" by (simp add: uniform_def algebra_simps)
  with u have y: "1 \<le> ?y" "?y < 900" by linarith+
  have "?y - 1 / 2 \<le> of_int ?k" and "of_int ?k \<le> ?y + 1 / 2"
    using round_half_even_near [of ?y] by blast+
  with y have "0 < real_of_int ?k" and "real_of_int ?k < 901" by linarith+
  then have "1 \<le> ?k" and "?k \<le> 900" by linarith+
  then have "1 \<le> real_of_int ?k" and "real_of_int ?k \<le> 900" by linarith+
  then show ?thesis unfolding round_ndigits_def by (simp add: field_simps)
qed

lemma decimal_answer:
  "in_band Decimals d (fst (ARITH Decimals d r1 r2))
   \<and> (\<exists>v. exact_result (fst (ARITH Decimals d r1 r2)) = Some v
        \<and> snd (ARITH Decimals d r1 r2) = round_to_difficulty v d)"
proof (cases d)
  case Easy
  have "choice [1 / 10, 2 / 10, 25 / 100, 5 / 10, 75 / 100 :: real] r1
          \<in> set [1 / 10, 2 / 10, 25 / 100, 5 / 10, 75 / 100]"
    by (rule choice_mem) simp
  with Easy show ?thesis by (simp add: Let_def in_band_def between_randint)
next
  case Medium
  have "choice [1 / 10, 2 / 10, 25 / 100, 33 / 100, 5 / 10, 66 / 100, 75 / 100 :: real] r1
          \<in> set [1 / 10, 2 / 10, 25 / 100, 33 / 100, 5 / 10, 66 / 100, 75 / 100]"
    by (rule choice_mem) simp
  with Medium show ?thesis by (simp add: Let_def in_band_def between_randint)
next
  case Hard
  then show ?thesis
    using hard_dec_range [of r1]
    by (simp add: Let_def in_band_def between_randint round_ndigits_idem)
qed

lemma arith_answer_on_grid:
  "round_ndigits (snd (ARITH t d r1 r2)) (decimals d) = snd (ARITH t d r1 r2)"
proof (cases t)
  case Division
  show ?thesis
  proof (cases d)
    case Easy
    let ?b = "choice [2, 4, 5, 8::int] r1"
    have "?b \<in> set [2, 4, 5, 8]" by (rule choice_mem) simp
    then have "?b \<noteq> 0" by auto
    then have "snd (gen_div Easy r1 r2) = of_int (randint 2 50 r2)" by (simp add: Let_def)
    then show ?thesis using Division Easy by (simp add: round_ndigits_of_int_any)
  next
    case Medium
    then show ?thesis using Division by (simp add: Let_def round_ndigits_idem)
  next
    case Hard
    then show ?thesis using Division by (simp add: Let_def round_ndigits_idem)
  qed
next
  case Decimals
  then show ?thesis by (cases d) (simp_all add: Let_def round_ndigits_idem)
qed (simp_all add: int_answer_def round_ndigits_of_int_any)

section \<open>Claims about the arithmetic generators\<close>

text \<open>
  C5, as amended. For every difficulty, every arithmetic topic and every draw, the
  operands shown in the prompt lie in the band that the table gives for the topic and
  the difficulty. The returned answer is the exact arithmetic result of those operands
  for addition, subtraction, multiplication, square, cube and easy division; for the
  decimals topic it is the exact product rounded to the decimal depth of the difficulty;
  for medium and hard division it is the double-precision quotient \<open>a / b\<close> rounded to
  the depth. Every rounded answer has no more decimals than the depth and lies within
  half a unit of the last decimal of the exact result.
\<close>

theorem arith_answer_of_operands:
  "in_band t d (fst (ARITH t d r1 r2))
   \<and> (\<exists>v. exact_result (fst (ARITH t d r1 r2)) = Some v
        \<and> snd (ARITH t d r1 r2) =
            (if t = Division \<and> d \<noteq> Easy then round_to_difficulty (fl v) d
             else if t = Decimals then round_to_difficulty v d
             else v)
        \<and> (rounded_topic t d \<longrightarrow>
             round_ndigits (snd (ARITH t d r1 r2)) (decimals d) = snd (ARITH t d r1 r2)
             \<and> \<bar>snd (ARITH t d r1 r2) - v\<bar> \<le> 1 / (2 * 10 ^ decimals d)))"
proof (cases t)
  case Addition
  then show ?thesis using add_answer [of d r1 r2] by (simp add: rounded_topic_def)
next
  case Subtraction
  then show ?thesis using sub_answer [of d r1 r2] by (simp add: rounded_topic_def)
next
  case Multiplication
  then show ?thesis using mul_answer [of d r1 r2] by (simp add: rounded_topic_def)
next
  case Division
  from div_answer [of d r1 r2] obtain v where
    band: "in_band Division d (fst (ARITH Division d r1 r2))"
    and v: "exact_result (fst (ARITH Division d r1 r2)) = Some v"
    and ans: "snd (ARITH Division d r1 r2) = (if d = Easy then v else round_to_difficulty (fl v) d)"
    by blast
  have near: "\<bar>snd (ARITH Division d r1 r2) - v\<bar> \<le> 1 / (2 * 10 ^ decimals d)" if "d \<noteq> Easy"
    using that v by (rule div_nearest)
  note grid = arith_answer_on_grid [of Division d r1 r2]
  show ?thesis unfolding Division using band v ans near grid
    by (auto simp: rounded_topic_def)
next
  case Decimals
  from decimal_answer [of d r1 r2] obtain v where
    band: "in_band Decimals d (fst (ARITH Decimals d r1 r2))"
    and v: "exact_result (fst (ARITH Decimals d r1 r2)) = Some v"
    and ans: "snd (ARITH Decimals d r1 r2) = round_to_difficulty v d" by blast
  have near: "\<bar>snd (ARITH Decimals d r1 r2) - v\<bar> \<le> 1 / (2 * 10 ^ decimals d)"
    unfolding ans round_to_difficulty_decimals by (rule round_ndigits_near)
  note grid = arith_answer_on_grid [of Decimals d r1 r2]
  show ?thesis unfolding Decimals using band v ans near grid
    by (auto simp: rounded_topic_def)
next
  case Square
  then show ?thesis using square_answer [of d r1 r2] by (simp add: rounded_topic_def)
next
  case Cube
  then show ?thesis using cube_answer [of d r1 r2] by (simp add: rounded_topic_def)
qed

theorem arith_answer_of_operands_witness:
  "ARITH Division Medium 38 1 = (DivPrompt 51 40, 127 / 100)
   \<and> rounded_topic Division Medium
   \<and> in_band Division Medium (DivPrompt 51 40)
   \<and> exact_result (DivPrompt 51 40) = Some (51 / 40)
   \<and> 127 / 100 = round_to_difficulty (fl (51 / 40)) Medium
   \<and> round_ndigits (127 / 100) (decimals Medium) = 127 / 100
   \<and> \<bar>127 / 100 - 51 / 40\<bar> \<le> 1 / (2 * 10 ^ decimals Medium :: real)"
proof -
  have a: "ARITH Division Medium 38 1 = (DivPrompt 51 40, 127 / 100)" by code_simp
  have b: "rounded_topic Division Medium" by (simp add: rounded_topic_def)
  have x: "exact_result (DivPrompt 51 40) = Some (51 / 40)" by code_simp
  note th = arith_answer_of_operands [of Division Medium 38 1, unfolded a fst_conv snd_conv]
  from th [THEN conjunct2] obtain v where
    v: "exact_result (DivPrompt 51 40) = Some v"
    and ans: "127 / 100 =
            (if Division = Division \<and> Medium \<noteq> Easy then round_to_difficulty (fl v) Medium
             else if Division = Decimals then round_to_difficulty v Medium
             else v)"
    and r: "rounded_topic Division Medium \<longrightarrow>
             round_ndigits (127 / 100) (decimals Medium) = 127 / 100
             \<and> \<bar>127 / 100 - v\<bar> \<le> 1 / (2 * 10 ^ decimals Medium)"
    by blast
  from v x have vv: "v = 51 / 40" by (simp only: option.inject)
  have c: "Division = Division \<and> Medium \<noteq> Easy" by simp
  note ans' = ans [unfolded if_P [OF c] vv]
  note g = r [THEN mp, OF b, unfolded vv]
  show ?thesis
    by (intro conjI a b th [THEN conjunct1] x ans' g [THEN conjunct1] g [THEN conjunct2])
qed

text \<open>
  C5 as stated fails for medium and hard division. The medium question \<open>51 \<div> 40\<close> has
  the exact result 1.275, which rounded to two decimals is 1.28; the double nearest to
  1.275 lies below it, and the generator returns 1.27.
\<close>

theorem arith_answer_exact_counterexample:
  "ARITH Division Medium 38 1 = (DivPrompt 51 40, 127 / 100)
   \<and> exact_result (DivPrompt 51 40) = Some (51 / 40)
   \<and> fl (51 / 40) < 51 / 40
   \<and> round_to_difficulty (51 / 40) Medium = 128 / 100
   \<and> snd (ARITH Division Medium 38 1) \<noteq> round_to_difficulty (51 / 40) Medium"
  by code_simp

section \<open>Facts about the modes\<close>

lemma arith_answer_member:
  assumes "mcq_options (snd (ARITH t d r1 r2)) d rs sh = Some opts"
  shows "snd (ARITH t d r1 r2) \<in> set opts"
proof -
  have "mcq_seed (snd (ARITH t d r1 r2)) d \<in> set opts"
    using mcq_options_inv [OF assms] by simp
  then show ?thesis by (simp add: mcq_seed_exact [OF arith_answer_on_grid])
qed

lemma py_index_found: "x \<in> set xs \<Longrightarrow> py_index xs x \<noteq> None"
  by (induction xs) auto

lemma py_get_in_range: "0 \<le> i \<Longrightarrow> i < int (length xs) \<Longrightarrow> py_get xs i = Some (xs ! nat i)"
  by (simp add: py_get_def)

lemma get_choice_valid:
  "get_choice valid stdin = Some (ev, a, rest) \<Longrightarrow> a \<in> set (map py_lower valid)"
proof (induction stdin arbitrary: ev a rest)
  case Nil
  then show ?case by simp
next
  case (Cons l ls)
  show ?case
  proof (cases "py_lower (py_strip l) \<in> set (map py_lower valid)")
    case True
    with Cons.prems show ?thesis by (simp add: Let_def)
  next
    case False
    with Cons.prems obtain ev' where "get_choice valid ls = Some (ev', a, rest)"
      by (auto simp: Let_def split: option.splits)
    then show ?thesis by (rule Cons.IH)
  qed
qed

lemma drill_choice_digit:
  assumes "get_choice (map ascii [''1'', ''2'', ''3'', ''4'', ''q'']) stdin = Some (ev, chosen, rest)"
    and "chosen \<noteq> ascii ''q''"
  shows "\<exists>c. int_of_digits chosen = Some c \<and> 1 \<le> c \<and> c \<le> 4"
proof -
  have low: "map py_lower (map ascii [''1'', ''2'', ''3'', ''4'', ''q''])
               = [ascii ''1'', ascii ''2'', ascii ''3'', ascii ''4'', ascii ''q'']"
    by code_simp
  from get_choice_valid [OF assms(1)] assms(2)
  have "chosen = ascii ''1'' \<or> chosen = ascii ''2'' \<or> chosen = ascii ''3''
          \<or> chosen = ascii ''4''"
    unfolding low by auto
  moreover have "int_of_digits (ascii ''1'') = Some 1" "int_of_digits (ascii ''2'') = Some 2"
    "int_of_digits (ascii ''3'') = Some 3" "int_of_digits (ascii ''4'') = Some 4"
    by code_simp+
  ultimately show ?thesis by auto
qed

lemma eighty_loop_raises:
  "eighty_loop d env i score stdin out = Raised e out' \<Longrightarrow> e = EOFError"
proof (induction d env i score stdin out rule: eighty_loop.induct)
  case (1 d env i score stdin out)
  let ?q = "draws_of env i"
  let ?qa = "ARITH (choice topics (topic_draw ?q)) d (first_draw ?q) (second_draw ?q)"
  let ?ans = "snd ?qa"
  show ?case
  proof (cases "80 < i \<or> 480 < check_time env i")
    case True
    with "1.prems" show ?thesis by (subst (asm) eighty_loop.simps) (auto split: if_splits)
  next
    case run: False
    show ?thesis
    proof (cases "mcq_options ?ans d (option_draws ?q) (shuffle_draws ?q)")
      case None
      with run "1.prems" show ?thesis by (subst (asm) eighty_loop.simps) (simp add: Let_def)
    next
      case (Some opts)
      have mem: "?ans \<in> set opts" using Some by (rule arith_answer_member)
      have len: "length opts = 4" using mcq_options_inv [OF Some] by simp
      obtain k where k: "py_index opts ?ans = Some k" using py_index_found [OF mem] by auto
      let ?out1 = "out @ [DrillQuestion i (480 - show_time env i) (fst ?qa) opts]"
      show ?thesis
      proof (cases "get_choice (map ascii [''1'', ''2'', ''3'', ''4'', ''q'']) stdin")
        case None
        with run Some "1.prems" show ?thesis
          by (subst (asm) eighty_loop.simps) (simp add: Let_def)
      next
        case gc: (Some triple)
        obtain ev chosen rest where t: "triple = (ev, chosen, rest)" by (cases triple) auto
        show ?thesis
        proof (cases "chosen = ascii ''q''")
          case True
          with run Some gc t "1.prems" show ?thesis
            by (subst (asm) eighty_loop.simps) (simp add: Let_def)
        next
          case nq: False
          from drill_choice_digit [OF gc [unfolded t] nq]
          obtain c where c: "int_of_digits chosen = Some c" "1 \<le> c" "c \<le> 4" by blast
          have pg: "py_get opts (c - 1) = Some (opts ! nat (c - 1))"
            using c len by (intro py_get_in_range) simp_all
          let ?picked = "opts ! nat (c - 1)"
          show ?thesis
          proof (cases "\<bar>?picked - ?ans\<bar> < 1 / 10 ^ 9")
            case True
            with run Some gc t nq c pg k "1.prems"
            have "eighty_loop d env (i + 1) (score + 1) rest (?out1 @ ev @ [Correct])
                    = Raised e out'"
              by (subst (asm) eighty_loop.simps) (simp add: Let_def)
            moreover have "\<not> 80 < i" "\<not> 480 < check_time env i" using run by simp_all
            ultimately show ?thesis
              using "1.IH"(1) [OF _ _ refl refl refl refl refl Some refl gc [unfolded t] refl refl nq c(1) pg k True]
              by blast
          next
            case False
            with run Some gc t nq c pg k "1.prems"
            have "eighty_loop d env (i + 1) score rest (?out1 @ ev @ [Wrong ?ans])
                    = Raised e out'"
              by (subst (asm) eighty_loop.simps) (simp add: Let_def)
            moreover have "\<not> 80 < i" "\<not> 480 < check_time env i" using run by simp_all
            ultimately show ?thesis
              using "1.IH"(2) [OF _ _ refl refl refl refl refl Some refl gc [unfolded t] refl refl nq c(1) pg k False]
              by blast
          qed
        qed
      qed
    qed
  qed
qed

lemma run_eighty_raises: "run_eighty env stdin = Raised e out' \<Longrightarrow> e = EOFError"
proof -
  assume r: "run_eighty env stdin = Raised e out'"
  show ?thesis
  proof (cases "get_choice (map ascii [''easy'', ''medium'', ''hard'']) stdin")
    case None
    with r show ?thesis by (simp add: run_eighty_def)
  next
    case (Some triple)
    obtain ev dif rest where t: "triple = (ev, dif, rest)" by (cases triple) auto
    show ?thesis
    proof (cases "eighty_loop (difficulty_of dif) env 1 0 rest (DrillHeader # ev)")
      case (Returned x)
      with r Some t show ?thesis by (simp add: run_eighty_def split: prod.splits)
    next
      case (Raised e' o')
      with r Some t have "e' = e" by (simp add: run_eighty_def)
      with Raised show ?thesis using eighty_loop_raises by blast
    next
      case (Diverged o')
      with r Some t show ?thesis by (simp add: run_eighty_def)
    qed
  qed
qed

section \<open>Claims about the modes\<close>

text \<open>
  C9. In the loop of classic mode, when the line read for question \<open>i\<close> is, after
  stripping, neither \<open>q\<close> nor \<open>quit\<close> and \<open>float\<close> rejects it, the program prints
  the question and \<open>Invalid.\<close>, and goes on with question \<open>i + 1\<close>, the rest of the
  input and the score unchanged. So when question \<open>i\<close> is the last one the loop ends
  with the score it had; when it is not, question \<open>i + 1\<close> is printed next, and a quit
  token or the end of the input there leaves the loop with the same score.
\<close>

theorem classic_invalid_answer_skipped:
  assumes "i \<le> n" and "py_strip l \<notin> set [ascii ''q'', ascii ''quit'']"
    and "float_of (py_strip l) = None"
  shows "classic_loop float_of d n env i score (l # rest) out =
           classic_loop float_of d n env (i + 1) score rest
             (out @ [ClassicQuestion i
                       (fst (ARITH (choice topics (topic_draw (draws_of env i))) d
                               (first_draw (draws_of env i)) (second_draw (draws_of env i)))),
                     Invalid])
         \<and> (i = n \<longrightarrow>
              classic_loop float_of d n env i score (l # rest) out =
                Returned (out @ [ClassicQuestion i
                                   (fst (ARITH (choice topics (topic_draw (draws_of env i))) d
                                      (first_draw (draws_of env i)) (second_draw (draws_of env i)))),
                                 Invalid], score))
         \<and> (i < n \<longrightarrow> rest = [] \<longrightarrow>
              classic_loop float_of d n env i score (l # rest) out =
                Raised EOFError
                  (out @ [ClassicQuestion i
                            (fst (ARITH (choice topics (topic_draw (draws_of env i))) d
                               (first_draw (draws_of env i)) (second_draw (draws_of env i)))),
                          Invalid,
                          ClassicQuestion (i + 1)
                            (fst (ARITH (choice topics (topic_draw (draws_of env (i + 1)))) d
                               (first_draw (draws_of env (i + 1)))
                               (second_draw (draws_of env (i + 1)))))]))
         \<and> (i < n \<longrightarrow> (\<exists>l' rest'. rest = l' # rest'
                          \<and> py_strip l' \<in> set [ascii ''q'', ascii ''quit'']) \<longrightarrow>
              classic_loop float_of d n env i score (l # rest) out =
                Returned
                  (out @ [ClassicQuestion i
                            (fst (ARITH (choice topics (topic_draw (draws_of env i))) d
                               (first_draw (draws_of env i)) (second_draw (draws_of env i)))),
                          Invalid,
                          ClassicQuestion (i + 1)
                            (fst (ARITH (choice topics (topic_draw (draws_of env (i + 1)))) d
                               (first_draw (draws_of env (i + 1)))
                               (second_draw (draws_of env (i + 1)))))], score))"
proof -
  let ?Q = "\<lambda>k. ClassicQuestion k
                  (fst (ARITH (choice topics (topic_draw (draws_of env k))) d
                          (first_draw (draws_of env k)) (second_draw (draws_of env k))))"
  have step: "classic_loop float_of d n env i score (l # rest) out =
                classic_loop float_of d n env (i + 1) score rest (out @ [?Q i, Invalid])"
    using assms by (subst classic_loop.simps) (simp add: Let_def py_float_def)
  have last: "classic_loop float_of d n env (i + 1) score rest (out @ [?Q i, Invalid])
                = Returned (out @ [?Q i, Invalid], score)" if "i = n"
    using that by (subst classic_loop.simps) simp
  have eof: "classic_loop float_of d n env (i + 1) score [] (out @ [?Q i, Invalid])
                = Raised EOFError (out @ [?Q i, Invalid, ?Q (i + 1)])" if "i < n"
    using that by (subst classic_loop.simps) (simp add: Let_def)
  have quit: "classic_loop float_of d n env (i + 1) score (l' # rest') (out @ [?Q i, Invalid])
                = Returned (out @ [?Q i, Invalid, ?Q (i + 1)], score)"
    if "i < n" and "py_strip l' \<in> set [ascii ''q'', ascii ''quit'']" for l' rest'
    using that by (subst classic_loop.simps) (simp add: Let_def)
  show ?thesis
  proof (intro conjI impI)
    show "classic_loop float_of d n env i score (l # rest) out =
            classic_loop float_of d n env (i + 1) score rest (out @ [?Q i, Invalid])"
      by (rule step)
  next
    assume "i = n"
    then show "classic_loop float_of d n env i score (l # rest) out
                 = Returned (out @ [?Q i, Invalid], score)"
      using step last by simp
  next
    assume "i < n" and "rest = []"
    then show "classic_loop float_of d n env i score (l # rest) out
                 = Raised EOFError (out @ [?Q i, Invalid, ?Q (i + 1)])"
      using step eof by simp
  next
    assume lt: "i < n"
      and "\<exists>l' rest'. rest = l' # rest' \<and> py_strip l' \<in> set [ascii ''q'', ascii ''quit'']"
    then obtain l' rest' where r: "rest = l' # rest'"
      and q: "py_strip l' \<in> set [ascii ''q'', ascii ''quit'']" by blast
    have "classic_loop float_of d n env (i + 1) score rest (out @ [?Q i, Invalid])
            = Returned (out @ [?Q i, Invalid, ?Q (i + 1)], score)"
      unfolding r by (rule quit [OF lt q])
    with step show "classic_loop float_of d n env i score (l # rest) out
            = Returned (out @ [?Q i, Invalid, ?Q (i + 1)], score)"
      by (simp only:)
  qed
qed

theorem classic_invalid_answer_skipped_witness:
  "(1::int) \<le> 3
   \<and> py_strip (ascii ''abc'') \<notin> set [ascii ''q'', ascii ''quit'']
   \<and> [ascii ''110'' \<mapsto> 110::real] (py_strip (ascii ''abc'')) = None
   \<and> classic_loop [ascii ''110'' \<mapsto> 110] Easy 3 demo_session 1 0
         [ascii ''abc'', ascii ''110'', ascii ''quit''] []
     = classic_loop [ascii ''110'' \<mapsto> 110] Easy 3 demo_session 2 0
         [ascii ''110'', ascii ''quit'']
         [ClassicQuestion 1 (AddPrompt 50 60), Invalid]
   \<and> classic_loop [ascii ''110'' \<mapsto> 110] Easy 3 demo_session 2 0
         [ascii ''110'', ascii ''quit'']
         [ClassicQuestion 1 (AddPrompt 50 60), Invalid]
     = Returned ([ClassicQuestion 1 (AddPrompt 50 60), Invalid,
                  ClassicQuestion 2 (AddPrompt 50 60), Correct,
                  ClassicQuestion 3 (AddPrompt 50 60)], 1)
   \<and> classic_loop [ascii ''110'' \<mapsto> 110] Easy 1 demo_session 1 0 [ascii ''abc''] []
     = Returned ([ClassicQuestion 1 (AddPrompt 50 60), Invalid], 0)
   \<and> (1::int) < 3
   \<and> classic_loop [ascii ''110'' \<mapsto> 110] Easy 3 demo_session 1 0 [ascii ''abc''] []
     = Raised EOFError [ClassicQuestion 1 (AddPrompt 50 60), Invalid,
                        ClassicQuestion 2 (AddPrompt 50 60)]
   \<and> py_strip (ascii '' quit'') \<in> set [ascii ''q'', ascii ''quit'']
   \<and> classic_loop [ascii ''110'' \<mapsto> 110] Easy 3 demo_session 1 0
         [ascii ''abc'', ascii '' quit''] []
     = Returned ([ClassicQuestion 1 (AddPrompt 50 60), Invalid,
                  ClassicQuestion 2 (AddPrompt 50 60)], 0)"
proof -
  let ?f = "[ascii ''110'' \<mapsto> 110::real]"
  have a: "(1::int) \<le> 3" by simp
  have a1: "(1::int) \<le> 1" by simp
  have lt: "(1::int) < 3" by simp
  have b: "py_strip (ascii ''abc'') \<notin> set [ascii ''q'', ascii ''quit'']" by code_simp
  have c: "?f (py_strip (ascii ''abc'')) = None" by code_simp
  have qt: "py_strip (ascii '' quit'') \<in> set [ascii ''q'', ascii ''quit'']" by code_simp
  have q: "fst (ARITH (choice topics (topic_draw (draws_of demo_session 1))) Easy
             (first_draw (draws_of demo_session 1)) (second_draw (draws_of demo_session 1)))
           = AddPrompt 50 60" by code_simp
  have q2: "fst (ARITH (choice topics (topic_draw (draws_of demo_session 2))) Easy
             (first_draw (draws_of demo_session 2)) (second_draw (draws_of demo_session 2)))
           = AddPrompt 50 60" by code_simp
  have two: "(1::int) + 1 = 2" by simp
  have nil: "[] @ [ClassicQuestion 1 (AddPrompt 50 60), Invalid]
           = [ClassicQuestion 1 (AddPrompt 50 60), Invalid]" by simp
  have nil3: "[] @ [ClassicQuestion 1 (AddPrompt 50 60), Invalid,
                    ClassicQuestion 2 (AddPrompt 50 60)]
           = [ClassicQuestion 1 (AddPrompt 50 60), Invalid,
              ClassicQuestion 2 (AddPrompt 50 60)]" by simp
  have r: "classic_loop ?f Easy 3 demo_session 2 0 [ascii ''110'', ascii ''quit'']
         [ClassicQuestion 1 (AddPrompt 50 60), Invalid]
     = Returned ([ClassicQuestion 1 (AddPrompt 50 60), Invalid,
                  ClassicQuestion 2 (AddPrompt 50 60), Correct,
                  ClassicQuestion 3 (AddPrompt 50 60)], 1)" by code_simp
  note s1 = classic_invalid_answer_skipped
              [of 1 3 "ascii ''abc''" ?f Easy demo_session 0
                  "[ascii ''110'', ascii ''quit'']" "[]", OF a b c, unfolded q q2 two nil nil3]
  note s2 = classic_invalid_answer_skipped
              [of 1 1 "ascii ''abc''" ?f Easy demo_session 0 "[]" "[]", OF a1 b c,
               unfolded q q2 two nil nil3]
  note s3 = classic_invalid_answer_skipped
              [of 1 3 "ascii ''abc''" ?f Easy demo_session 0 "[]" "[]", OF a b c,
               unfolded q q2 two nil nil3]
  note s4 = classic_invalid_answer_skipped
              [of 1 3 "ascii ''abc''" ?f Easy demo_session 0 "[ascii '' quit'']" "[]",
               OF a b c, unfolded q q2 two nil nil3]
  have ex: "\<exists>l' rest'. [ascii '' quit''] = l' # rest'
              \<and> py_strip l' \<in> set [ascii ''q'', ascii ''quit'']"
    using qt by blast
  show ?thesis
    by (intro conjI a b c r lt qt
          s1 [THEN conjunct1]
          s2 [THEN conjunct2, THEN conjunct1, THEN mp, OF refl]
          s3 [THEN conjunct2, THEN conjunct2, THEN conjunct1, THEN mp, THEN mp, OF lt refl]
          s4 [THEN conjunct2, THEN conjunct2, THEN conjunct2, THEN mp, THEN mp, OF lt ex])
qed

text \<open>
  The no-break space U+00A0 is white space for \<open>str.strip\<close>: the line \<open>q\<close> followed
  by it is a quit token, and the hypotheses of the theorem above do not hold of it.
\<close>

lemma strip_no_break_space:
  "py_strip (ascii ''q'' @ [160]) = ascii ''q''
   \<and> classic_loop float_of Easy 3 demo_session 1 0 [ascii ''q'' @ [160]] []
       = Returned ([ClassicQuestion 1 (AddPrompt 50 60)], 0)"
proof -
  have s: "py_strip (ascii ''q'' @ [160]) = ascii ''q''" by code_simp
  have q: "fst (ARITH (choice topics (topic_draw (draws_of demo_session 1))) Easy
             (first_draw (draws_of demo_session 1)) (second_draw (draws_of demo_session 1)))
           = AddPrompt 50 60" by code_simp
  have "classic_loop float_of Easy 3 demo_session 1 0 [ascii ''q'' @ [160]] []
       = Returned ([ClassicQuestion 1 (AddPrompt 50 60)], 0)"
    by (subst classic_loop.simps) (simp add: Let_def s q)
  with s show ?thesis by blast
qed

text \<open>
  C4, evaluated on a run. The clock passes 480 seconds at the top of iteration 5, after
  four questions were asked and answered. The drill asks no further question and prints
  the time-up notice, but the summary reports the score over 5, the value of the loop
  variable at the \<open>break\<close>, and not over the 4 questions attempted.
\<close>

theorem run_eighty_time_up_total:
  "run_eighty demo_session (map ascii [''easy'', ''1'', ''2'', ''1'', ''1''])
   = Returned [DrillHeader,
       DrillQuestion 1 379 (AddPrompt 50 60) [110, 111, 112, 113], Correct,
       DrillQuestion 2 279 (AddPrompt 50 60) [110, 111, 112, 113], Wrong 110,
       DrillQuestion 3 179 (AddPrompt 50 60) [110, 111, 112, 113], Correct,
       DrillQuestion 4 79 (AddPrompt 50 60) [110, 111, 112, 113], Correct,
       TimeIsUp, Summary 3 5, Accuracy 60]
   \<and> questions_asked [DrillHeader,
       DrillQuestion 1 379 (AddPrompt 50 60) [110, 111, 112, 113], Correct,
       DrillQuestion 2 279 (AddPrompt 50 60) [110, 111, 112, 113], Wrong 110,
       DrillQuestion 3 179 (AddPrompt 50 60) [110, 111, 112, 113], Correct,
       DrillQuestion 4 79 (AddPrompt 50 60) [110, 111, 112, 113], Correct,
       TimeIsUp, Summary 3 5, Accuracy 60] = 4
   \<and> check_time demo_session 4 = 400 \<and> check_time demo_session 5 = 500"
  by code_simp

text \<open>
  C10. Every arithmetic answer generated at the session's difficulty is its own seed for
  \<open>mcq_options\<close>: it is an exact integer or already rounded to the depth of the
  difficulty. So whenever \<open>mcq_options(ans, difficulty)\<close> returns a list, \<open>ans\<close> is
  a member of it and \<open>opts.index(ans)\<close> finds it, and neither the loop of the drill nor
  \<open>run_eighty\<close> ever ends in a \<open>ValueError\<close>.
\<close>

theorem drill_answer_is_option:
  "mcq_seed (snd (ARITH t d r1 r2)) d = snd (ARITH t d r1 r2)
   \<and> (mcq_options (snd (ARITH t d r1 r2)) d rs sh = Some opts \<longrightarrow>
        snd (ARITH t d r1 r2) \<in> set opts \<and> py_index opts (snd (ARITH t d r1 r2)) \<noteq> None)
   \<and> eighty_loop d env i score stdin out \<noteq> Raised ValueError out'
   \<and> run_eighty env stdin \<noteq> Raised ValueError out'"
proof (intro conjI impI)
  show "mcq_seed (snd (ARITH t d r1 r2)) d = snd (ARITH t d r1 r2)"
    by (rule mcq_seed_exact [OF arith_answer_on_grid])
next
  assume m: "mcq_options (snd (ARITH t d r1 r2)) d rs sh = Some opts"
  then show "snd (ARITH t d r1 r2) \<in> set opts" by (rule arith_answer_member)
  then show "py_index opts (snd (ARITH t d r1 r2)) \<noteq> None" by (rule py_index_found)
next
  show "eighty_loop d env i score stdin out \<noteq> Raised ValueError out'"
    using eighty_loop_raises [of d env i score stdin out ValueError out'] by auto
next
  show "run_eighty env stdin \<noteq> Raised ValueError out'"
    using run_eighty_raises [of env stdin ValueError out'] by auto
qed

theorem drill_answer_is_option_witness:
  "ARITH Division Medium 5 3 = (DivPrompt 53 7, 757 / 100)
   \<and> mcq_options (757 / 100) Medium [6755399441055744, 2251799813685248, 0] draws_keep
       = Some [757 / 100, 788 / 100, 726 / 100, 695 / 100]
   \<and> 757 / 100 \<in> set [757 / 100, 788 / 100, 726 / 100, 695 / 100 :: real]
   \<and> py_index [757 / 100, 788 / 100, 726 / 100, 695 / 100 :: real] (757 / 100) \<noteq> None"
proof -
  have a: "ARITH Division Medium 5 3 = (DivPrompt 53 7, 757 / 100)" by code_simp
  have b: "mcq_options (757 / 100) Medium [6755399441055744, 2251799813685248, 0] draws_keep
       = Some [757 / 100, 788 / 100, 726 / 100, 695 / 100]" by code_simp
  note th = drill_answer_is_option
              [of Division Medium 5 3 "[6755399441055744, 2251799813685248, 0]" draws_keep
                  "[757 / 100, 788 / 100, 726 / 100, 695 / 100]",
               unfolded a snd_conv]
  note m = th [THEN conjunct2, THEN conjunct1, THEN mp, OF b]
  show ?thesis by (intro conjI a b m [THEN conjunct1] m [THEN conjunct2])
qed

section \<open>Facts about the approximation generators\<close>











section \<open>Claims about the approximation generators\<close>



lemma gen_sqrt_value:
  assumes "fst (gen_sqrt d r) = SqrtPrompt x tol"
  shows "snd (gen_sqrt d r) = Tolerance (fl (sqrt (of_int x))) tol
       \<and> tol = fl (case d of Easy \<Rightarrow> 5 / 100 | Medium \<Rightarrow> 3 / 100 | Hard \<Rightarrow> 2 / 100)"
  using assms by (cases d) (auto simp: gen_sqrt_def Let_def)

text \<open>
  C8. In approximation mode, when the topic drawn for question \<open>i\<close> is \<open>sqrt\<close>, the
  generator returns the unrounded square root of the \<open>x\<close> in its prompt, as
  \<open>math.sqrt\<close> computes it, together with the tolerance 0.05, 0.03 or 0.02 of the
  difficulty. A line that \<open>float\<close> reads as the number \<open>v\<close> is the guess
  \<open>u = fl v\<close>; it prints \<open>Good\<close> and raises the score by one exactly when the float
  difference \<open>u - true\<close> is at most \<open>tol\<close> in absolute value, and otherwise prints
  \<open>Too far\<close> with the true value rounded to 4 decimals and leaves the score as it
  was. The loop goes on with question \<open>i + 1\<close> either way, and returns that output
  and score when question \<open>i\<close> is the last one.
\<close>

theorem sqrt_scored_by_tolerance:
  assumes "i \<le> n"
    and "choice approx_topics (topic_draw (draws_of env i)) = Sqrt"
    and "fst (gen_sqrt d (first_draw (draws_of env i))) = SqrtPrompt x tol"
    and "float_of l = Some v"
  shows "snd (gen_sqrt d (first_draw (draws_of env i))) = Tolerance (fl (sqrt (of_int x))) tol
       \<and> tol = fl (case d of Easy \<Rightarrow> 5 / 100 | Medium \<Rightarrow> 3 / 100 | Hard \<Rightarrow> 2 / 100)
       \<and> approx_loop float_of d n env i score (l # rest) out =
           (if \<bar>fl (fl v - fl (sqrt (of_int x)))\<bar> \<le> tol
            then approx_loop float_of d n env (i + 1) (score + 1) rest
                   (out @ [ApproxQuestion i (SqrtPrompt x tol), Good])
            else approx_loop float_of d n env (i + 1) score rest
                   (out @ [ApproxQuestion i (SqrtPrompt x tol),
                           TooFar (round_ndigits (fl (sqrt (of_int x))) 4)]))
       \<and> (i = n \<longrightarrow>
            approx_loop float_of d n env i score (l # rest) out =
              (if \<bar>fl (fl v - fl (sqrt (of_int x)))\<bar> \<le> tol
               then Returned (out @ [ApproxQuestion i (SqrtPrompt x tol), Good], score + 1)
               else Returned (out @ [ApproxQuestion i (SqrtPrompt x tol),
                                     TooFar (round_ndigits (fl (sqrt (of_int x))) 4)], score)))"
proof -
  note g = gen_sqrt_value [OF assms(3)]
  have step: "approx_loop float_of d n env i score (l # rest) out =
           (if \<bar>fl (fl v - fl (sqrt (of_int x)))\<bar> \<le> tol
            then approx_loop float_of d n env (i + 1) (score + 1) rest
                   (out @ [ApproxQuestion i (SqrtPrompt x tol), Good])
            else approx_loop float_of d n env (i + 1) score rest
                   (out @ [ApproxQuestion i (SqrtPrompt x tol),
                           TooFar (round_ndigits (fl (sqrt (of_int x))) 4)]))"
    using assms g by (subst approx_loop.simps) (simp add: Let_def py_float_def)
  have last: "approx_loop float_of d n env (i + 1) s rest o' = Returned (o', s)"
    if "i = n" for s o'
    using that by (subst approx_loop.simps) simp
  have fin: "approx_loop float_of d n env i score (l # rest) out =
              (if \<bar>fl (fl v - fl (sqrt (of_int x)))\<bar> \<le> tol
               then Returned (out @ [ApproxQuestion i (SqrtPrompt x tol), Good], score + 1)
               else Returned (out @ [ApproxQuestion i (SqrtPrompt x tol),
                                     TooFar (round_ndigits (fl (sqrt (of_int x))) 4)], score))"
    if "i = n"
    unfolding step using last [OF that] by simp
  show ?thesis using g step fin by blast
qed

lemma sqrt_16: "sqrt (real_of_int 16) = 4"
  by (rule real_sqrt_unique) simp_all

lemma sqrt_100: "sqrt (real_of_int 100) = 10"
  by (rule real_sqrt_unique) simp_all

text \<open>
  Two runs of one question at easy difficulty. The guess 4.04 for the square root of 16
  is not within 1e-9 of 4 and is scored good. The guess 10.05 for the square root of 100
  is read as the double just above 10.05, whose distance from 10 exceeds the double
  nearest to 0.05, and is scored too far.
\<close>

theorem sqrt_scored_by_tolerance_witness:
  "(1::int) \<le> 1
   \<and> choice approx_topics (topic_draw (draws_of sqrt_session 1)) = Sqrt
   \<and> fst (gen_sqrt Easy (first_draw (draws_of sqrt_session 1))) = SqrtPrompt 16 (fl (5 / 100))
   \<and> [ascii ''4.04'' \<mapsto> 404 / 100 :: real] (ascii ''4.04'') = Some (404 / 100)
   \<and> \<not> \<bar>404 / 100 - sqrt (of_int 16)\<bar> < (1 / 10 ^ 9 :: real)
   \<and> approx_loop [ascii ''4.04'' \<mapsto> 404 / 100] Easy 1 sqrt_session 1 0 [ascii ''4.04''] []
     = Returned ([ApproxQuestion 1 (SqrtPrompt 16 (fl (5 / 100))), Good], 1)
   \<and> fst (gen_sqrt Easy (first_draw (draws_of
           (sqrt_session\<lparr>draws_of := \<lambda>i. demo_draws\<lparr>first_draw := 95\<rparr>\<rparr>) 1)))
       = SqrtPrompt 100 (fl (5 / 100))
   \<and> [ascii ''10.05'' \<mapsto> 1005 / 100 :: real] (ascii ''10.05'') = Some (1005 / 100)
   \<and> approx_loop [ascii ''10.05'' \<mapsto> 1005 / 100] Easy 1
         (sqrt_session\<lparr>draws_of := \<lambda>i. demo_draws\<lparr>first_draw := 95\<rparr>\<rparr>) 1 0
         [ascii ''10.05''] []
     = Returned ([ApproxQuestion 1 (SqrtPrompt 100 (fl (5 / 100))), TooFar 10], 0)"
proof -
  let ?env = "sqrt_session\<lparr>draws_of := \<lambda>i. demo_draws\<lparr>first_draw := 95\<rparr>\<rparr>"
  have a: "(1::int) \<le> 1" by simp
  have b: "choice approx_topics (topic_draw (draws_of sqrt_session 1)) = Sqrt" by code_simp
  have b': "choice approx_topics (topic_draw (draws_of ?env 1)) = Sqrt" by code_simp
  have c: "fst (gen_sqrt Easy (first_draw (draws_of sqrt_session 1)))
             = SqrtPrompt 16 (fl (5 / 100))"
    by (simp add: gen_sqrt_def Let_def sqrt_session_def demo_draws_def randint_def)
  have c': "fst (gen_sqrt Easy (first_draw (draws_of ?env 1))) = SqrtPrompt 100 (fl (5 / 100))"
    by (simp add: gen_sqrt_def Let_def sqrt_session_def demo_draws_def randint_def)
  have e: "[ascii ''4.04'' \<mapsto> 404 / 100 :: real] (ascii ''4.04'') = Some (404 / 100)"
    by simp
  have e': "[ascii ''10.05'' \<mapsto> 1005 / 100 :: real] (ascii ''10.05'') = Some (1005 / 100)"
    by simp
  have f: "\<not> \<bar>404 / 100 - sqrt (of_int 16)\<bar> < (1 / 10 ^ 9 :: real)"
    unfolding sqrt_16 by simp
  have close: "\<bar>fl (fl (404 / 100) - fl 4)\<bar> \<le> fl (5 / 100)" by code_simp
  have far: "\<not> \<bar>fl (fl (1005 / 100) - fl 10)\<bar> \<le> fl (5 / 100)" by code_simp
  have ten: "round_ndigits (fl 10) 4 = 10" by code_simp
  have nil: "\<And>xs::event list. [] @ xs = xs" by simp
  have one: "(0::int) + 1 = 1" by simp
  note th = sqrt_scored_by_tolerance
              [of 1 1 sqrt_session Easy 16 "fl (5 / 100)" "[ascii ''4.04'' \<mapsto> 404 / 100]"
                  "ascii ''4.04''" "404 / 100" 0 "[]" "[]", OF a b c e]
  note s = th [THEN conjunct2, THEN conjunct2, THEN conjunct2, THEN mp, OF refl,
               unfolded sqrt_16 if_P [OF close] nil one]
  note th' = sqrt_scored_by_tolerance
              [of 1 1 ?env Easy 100 "fl (5 / 100)" "[ascii ''10.05'' \<mapsto> 1005 / 100]"
                  "ascii ''10.05''" "1005 / 100" 0 "[]" "[]", OF a b' c' e']
  note s' = th' [THEN conjunct2, THEN conjunct2, THEN conjunct2, THEN mp, OF refl,
                 unfolded sqrt_100 if_not_P [OF far] ten nil]
  show ?thesis by (intro conjI a b c e f s c' e' s')
qed

end
